theory Spec2Isabelle
  imports Complex_Main "HOL-Library.AList" "HOL-Library.Sublist"
begin

section \<open>The room server of \<^verbatim>\<open>src/server.js\<close> (class PublicMusicRoomServer)\<close>

subsection \<open>JavaScript values, objects and Maps\<close>

text \<open>
  The values that a socket.io payload can carry: JSON values, and \<^verbatim>\<open>undefined\<close> for a field
  that is missing. An array or object used as a plain value is \<open>JObject r\<close>, \<open>r\<close> being its
  reference (two values are \<^verbatim>\<open>===\<close> when they are the same reference). NaN cannot arrive
  through JSON, so \<^verbatim>\<open>===\<close> and the SameValueZero comparison of \<^verbatim>\<open>Array.prototype.includes\<close>
  both are equality of \<open>jsval\<close>.
\<close>

datatype jsval =
    JUndefined
  | JNull
  | JBool bool
  | JNum real
  | JStr string
  | JObject nat

text \<open>Truthiness, and the operator \<^verbatim>\<open>a || b\<close>.\<close>

fun truthy :: "jsval \<Rightarrow> bool" where
  "truthy JUndefined = False"
| "truthy JNull = False"
| "truthy (JBool b) = b"
| "truthy (JNum n) = (n \<noteq> 0)"
| "truthy (JStr s) = (s \<noteq> [])"
| "truthy (JObject r) = True"

definition js_or :: "jsval \<Rightarrow> jsval \<Rightarrow> jsval" where
  "js_or a b = (if truthy a then a else b)"

text \<open>
  An object literal or parsed object: its own enumerable properties. \<open>get_prop obj k\<close> is the
  property read \<^verbatim>\<open>obj.k\<close>, \<^verbatim>\<open>undefined\<close> when the property is missing (of a key
  that the list repeats, which an object does not, the first entry is read). \<open>spread a b\<close> is
  \<^verbatim>\<open>{ ...a, ...b }\<close>: the properties of \<open>a\<close> and then, in the order of \<open>b\<close>, each property of
  \<open>b\<close> set on top: in its place when \<open>a\<close> has the key, appended when not (property names
  that are array indices, which an object lists first, are not treated apart).
\<close>

type_synonym jsobj = "(string \<times> jsval) list"

definition get_prop :: "jsobj \<Rightarrow> string \<Rightarrow> jsval" where
  "get_prop obj k = (case map_of obj k of None \<Rightarrow> JUndefined | Some v \<Rightarrow> v)"

definition spread :: "jsobj \<Rightarrow> jsobj \<Rightarrow> jsobj" where
  "spread a b = fold (\<lambda>(k, v). AList.update k v) (AList.clearjunk b) a"

text \<open>
  A JavaScript \<^verbatim>\<open>Map\<close> is an association list in insertion order: \<^verbatim>\<open>get\<close> is \<open>map_of\<close>,
  \<^verbatim>\<open>set\<close> is \<open>AList.update\<close> (replaces the value of a key that is present, appends a new key),
  \<^verbatim>\<open>delete\<close> is \<open>AList.delete\<close>, \<^verbatim>\<open>size\<close> is the length (the keys stay distinct) and
  \<^verbatim>\<open>Array.from(m.values())\<close> is \<open>map snd\<close>.
\<close>

type_synonym ('k, 'v) jsmap = "('k \<times> 'v) list"

subsection \<open>Data of the server\<close>

type_synonym song = jsobj

text \<open>\<^verbatim>\<open>userData\<close> / \<^verbatim>\<open>hostData\<close>; the field \<^verbatim>\<open>id\<close> is \<open>id'\<close> here.\<close>

record user =
  id' :: string
  displayName :: jsval
  isHost :: bool
  socketId :: string
  ip :: string

text \<open>An entry of \<^verbatim>\<open>userSockets\<close>: \<^verbatim>\<open>{ roomCode, ...userData }\<close>.\<close>

record session = user +
  roomCode :: string

record room =
  code :: string
  name :: jsval
  description :: jsval
  playlist :: "song list"
  settings :: jsobj
  participants :: "(string, user) jsmap"
  participantCount :: nat
  createdAt :: nat
  hostId :: string
  hostIP :: string

text \<open>
  The state: the three collections of the class and, as \<open>io_rooms\<close>, the room membership
  that socket.io keeps for \<^verbatim>\<open>socket.join\<close>, \<^verbatim>\<open>io.to(r)\<close> and \<^verbatim>\<open>socket.to(r)\<close>.
\<close>

record server =
  rooms :: "(string, room) jsmap"
  userSockets :: "(string, session) jsmap"
  roomCodes :: "string set"
  io_rooms :: "string \<Rightarrow> string set"

definition init :: server where
  "init = \<lparr>rooms = [], userSockets = [], roomCodes = {}, io_rooms = (\<lambda>r. {})\<rparr>"

text \<open>The connection: \<^verbatim>\<open>socket.id\<close> and \<^verbatim>\<open>socket.handshake.address\<close>.\<close>

record socket =
  socket_id :: string
  handshake_address :: string

text \<open>
  What a handler reads from outside: the successive values of
  \<^verbatim>\<open>Math.floor(Math.random() * chars.length)\<close> and the clock of \<^verbatim>\<open>new Date()\<close>.
\<close>

record env =
  random :: "nat list"
  now :: nat

subsection \<open>Outbound events\<close>

text \<open>The room object sent with \<^verbatim>\<open>room-joined\<close> and \<^verbatim>\<open>room-created\<close>.\<close>

record room_view =
  v_code :: string
  v_name :: jsval
  v_description :: jsval
  v_playlist :: "song list"
  v_settings :: jsobj
  v_participants :: "user list"

definition view :: "room \<Rightarrow> room_view" where
  "view r = \<lparr>v_code = code r, v_name = name r, v_description = description r,
     v_playlist = playlist r, v_settings = settings r,
     v_participants = map snd (participants r)\<rparr>"

text \<open>
  The outbound events with the fields of their payloads: \<^verbatim>\<open>join-error\<close>,
  \<^verbatim>\<open>participant-joined\<close>, \<^verbatim>\<open>room-joined\<close>, \<^verbatim>\<open>room-created\<close>, \<^verbatim>\<open>error\<close>,
  \<^verbatim>\<open>room-settings-updated\<close>, \<^verbatim>\<open>room-playlist-updated\<close> (with the name of its second field,
  \<^verbatim>\<open>addedBy\<close> or \<^verbatim>\<open>removedBy\<close>), \<^verbatim>\<open>sync-playback-command\<close>, \<^verbatim>\<open>chat-message\<close>,
  \<^verbatim>\<open>room-closed\<close> and \<^verbatim>\<open>participant-left\<close>.
\<close>

datatype message =
    JoinError string
  | ParticipantJoined user nat
  | RoomJoined room_view user
  | RoomCreated room_view user
  | Error string
  | RoomSettingsUpdated jsobj
  | RoomPlaylistUpdated "song list" string jsval
  | SyncPlaybackCommand jsval jsval jsval jsval jsval
  | ChatMessage jsval jsval nat
  | RoomClosed string
  | ParticipantLeft string nat

text \<open>An emission: the sockets it is delivered to, and the event.\<close>

type_synonym emit = "string set \<times> message"

definition socket_emit :: "socket \<Rightarrow> message \<Rightarrow> emit" where
  "socket_emit sock m = ({socket_id sock}, m)"

definition io_to :: "server \<Rightarrow> string \<Rightarrow> message \<Rightarrow> emit" where
  "io_to s r m = (io_rooms s r, m)"

definition socket_to :: "socket \<Rightarrow> server \<Rightarrow> string \<Rightarrow> message \<Rightarrow> emit" where
  "socket_to sock s r m = (io_rooms s r - {socket_id sock}, m)"

definition socket_join :: "socket \<Rightarrow> string \<Rightarrow> server \<Rightarrow> server" where
  "socket_join sock r s = s\<lparr>io_rooms := (io_rooms s)(r := insert (socket_id sock) (io_rooms s r))\<rparr>"

text \<open>socket.io takes a closing socket out of all its rooms before \<^verbatim>\<open>disconnect\<close> fires.\<close>

definition socket_leave_all :: "socket \<Rightarrow> server \<Rightarrow> server" where
  "socket_leave_all sock s = s\<lparr>io_rooms := (\<lambda>r. io_rooms s r - {socket_id sock})\<rparr>"

subsection \<open>generateRoomCode\<close>

definition chars :: string where
  "chars = ''ABCDEFGHIJKLMNOPQRSTUVWXYZ0123456789''"

definition charAt :: "string \<Rightarrow> nat \<Rightarrow> string" where
  "charAt str i = (if i < length str then [str ! i] else [])"

text \<open>
  The \<^verbatim>\<open>for\<close> loop: \<open>n\<close> more characters, each from the next random index. \<open>None\<close>: the
  supplied indices ran out.
\<close>

fun draw_code :: "nat \<Rightarrow> nat list \<Rightarrow> string \<Rightarrow> (string \<times> nat list) option" where
  "draw_code 0 ds acc = Some (acc, ds)"
| "draw_code (Suc n) [] acc = None"
| "draw_code (Suc n) (d # ds) acc = draw_code n ds (acc @ charAt chars d)"

text \<open>
  The \<^verbatim>\<open>do ... while (this.roomCodes.has(code))\<close> loop, then \<^verbatim>\<open>this.roomCodes.add(code)\<close>.
  The result is the code, the unused random indices and the new state.
\<close>

function generateRoomCode :: "nat list \<Rightarrow> server \<Rightarrow> (string \<times> nat list \<times> server) option" where
  "generateRoomCode ds s =
     (case draw_code 6 ds [] of
        None \<Rightarrow> None
      | Some (c, rest) \<Rightarrow>
          if c \<in> roomCodes s then generateRoomCode rest s
          else Some (c, rest, s\<lparr>roomCodes := insert c (roomCodes s)\<rparr>))"
  by pat_completeness auto
termination
proof (relation "measure (\<lambda>(ds, s). length ds)")
  show "wf (measure (\<lambda>(ds, s :: server). length ds))"
    by simp
next
  fix ds :: "nat list" and s :: server and x2 c rest
  assume drawn: "draw_code 6 ds [] = Some x2" and x2: "(c, rest) = x2"
  have len: "draw_code n xs acc = Some (c', r') \<Longrightarrow> length xs = length r' + n"
    for n xs acc c' r'
    by (induction n xs acc rule: draw_code.induct) auto
  from drawn x2 have "length ds = length rest + 6"
    using len [of 6 ds "[]" c rest] by simp
  then show "((rest, s), (ds, s)) \<in> measure (\<lambda>(ds, s). length ds)"
    by simp
qed

declare generateRoomCode.simps [simp del]

subsection \<open>The socket handlers\<close>

definition on_join_room :: "socket \<Rightarrow> string \<Rightarrow> jsval \<Rightarrow> server \<Rightarrow> server \<times> emit list" where
  "on_join_room sock rc dn s =
     (case map_of (rooms s) rc of
        None \<Rightarrow> (s, [socket_emit sock (JoinError ''Room not found'')])
      | Some rm \<Rightarrow>
          let userData = \<lparr>id' = socket_id sock,
                displayName = js_or dn (JStr ''Anonymous''),
                isHost = False,
                socketId = socket_id sock,
                ip = handshake_address sock\<rparr>;
              rm1 = rm\<lparr>participants := AList.update (socket_id sock) userData (participants rm)\<rparr>;
              s1 = s\<lparr>userSockets := AList.update (socket_id sock)
                     \<lparr>id' = id' userData, displayName = displayName userData,
                      isHost = isHost userData, socketId = socketId userData,
                      ip = ip userData, roomCode = rc\<rparr> (userSockets s)\<rparr>;
              s2 = socket_join sock rc s1;
              rm2 = rm1\<lparr>participantCount := length (participants rm1)\<rparr>;
              s3 = s2\<lparr>rooms := AList.update rc rm2 (rooms s2)\<rparr>
          in (s3, [io_to s3 rc (ParticipantJoined userData (participantCount rm2)),
                   socket_emit sock (RoomJoined (view rm2) userData)]))"

definition on_create_room ::
  "env \<Rightarrow> socket \<Rightarrow> jsval \<Rightarrow> jsval \<Rightarrow> song list option \<Rightarrow> server \<Rightarrow> (server \<times> emit list) option" where
  "on_create_room e sock nm descr initialPlaylist s =
     (case generateRoomCode (random e) s of
        None \<Rightarrow> None
      | Some (rc, rest, s0) \<Rightarrow>
          let rm = \<lparr>code = rc,
                name = js_or nm (JStr ''Music Room''),
                description = js_or descr (JStr ''''),
                playlist = (case initialPlaylist of None \<Rightarrow> [] | Some pl \<Rightarrow> pl),
                settings = [(''playbackMode'', JStr ''individual''),
                            (''syncControl'', JStr ''host-only'')],
                participants = [],
                participantCount = 1,
                createdAt = now e,
                hostId = socket_id sock,
                hostIP = handshake_address sock\<rparr>;
              hostData = \<lparr>id' = socket_id sock,
                displayName = JStr ''Host'',
                isHost = True,
                socketId = socket_id sock,
                ip = handshake_address sock\<rparr>;
              rm1 = rm\<lparr>participants := AList.update (socket_id sock) hostData (participants rm)\<rparr>;
              s1 = s0\<lparr>userSockets := AList.update (socket_id sock)
                     \<lparr>id' = id' hostData, displayName = displayName hostData,
                      isHost = isHost hostData, socketId = socketId hostData,
                      ip = ip hostData, roomCode = rc\<rparr> (userSockets s0)\<rparr>;
              s2 = s1\<lparr>rooms := AList.update rc rm1 (rooms s1)\<rparr>;
              s3 = socket_join sock rc s2
          in Some (s3, [socket_emit sock (RoomCreated (view rm1) hostData)]))"

definition on_update_room_settings ::
  "socket \<Rightarrow> string \<Rightarrow> jsobj \<Rightarrow> server \<Rightarrow> server \<times> emit list" where
  "on_update_room_settings sock rc patch s =
     (case (map_of (rooms s) rc, map_of (userSockets s) (socket_id sock)) of
        (Some rm, Some u) \<Rightarrow>
          if \<not> isHost u
          then (s, [socket_emit sock (Error ''Unauthorized to update room settings'')])
          else
            let rm1 = rm\<lparr>settings := spread (settings rm) patch\<rparr>;
                s1 = s\<lparr>rooms := AList.update rc rm1 (rooms s)\<rparr>
            in (s1, [io_to s1 rc (RoomSettingsUpdated (settings rm1))])
      | _ \<Rightarrow> (s, [socket_emit sock (Error ''Unauthorized to update room settings'')]))"

definition on_add_to_room_playlist ::
  "socket \<Rightarrow> string \<Rightarrow> song list \<Rightarrow> server \<Rightarrow> server \<times> emit list" where
  "on_add_to_room_playlist sock rc songs s =
     (case (map_of (rooms s) rc, map_of (userSockets s) (socket_id sock)) of
        (Some rm, Some u) \<Rightarrow>
          let newSongs = filter (\<lambda>sng.
                \<not> list_ex (\<lambda>existing. get_prop existing ''_id'' = get_prop sng ''_id'') (playlist rm)) songs;
              rm1 = rm\<lparr>playlist := playlist rm @ newSongs\<rparr>;
              s1 = s\<lparr>rooms := AList.update rc rm1 (rooms s)\<rparr>
          in (s1, [io_to s1 rc (RoomPlaylistUpdated (playlist rm1) ''addedBy'' (displayName u))])
      | _ \<Rightarrow> (s, [socket_emit sock (Error ''Room not found or user not in room'')]))"

definition on_remove_from_room_playlist ::
  "socket \<Rightarrow> string \<Rightarrow> jsval list \<Rightarrow> server \<Rightarrow> server \<times> emit list" where
  "on_remove_from_room_playlist sock rc songIds s =
     (case (map_of (rooms s) rc, map_of (userSockets s) (socket_id sock)) of
        (Some rm, Some u) \<Rightarrow>
          let rm1 = rm\<lparr>playlist := filter (\<lambda>sng. get_prop sng ''_id'' \<notin> set songIds)
                                        (playlist rm)\<rparr>;
              s1 = s\<lparr>rooms := AList.update rc rm1 (rooms s)\<rparr>
          in (s1, [io_to s1 rc (RoomPlaylistUpdated (playlist rm1) ''removedBy'' (displayName u))])
      | _ \<Rightarrow> (s, [socket_emit sock (Error ''Room not found or user not in room'')]))"

definition on_sync_playback ::
  "socket \<Rightarrow> string \<Rightarrow> jsval \<Rightarrow> jsval \<Rightarrow> jsval \<Rightarrow> jsval \<Rightarrow> server \<Rightarrow> server \<times> emit list" where
  "on_sync_playback sock rc action songId currentTime isPlaying s =
     (case (map_of (rooms s) rc, map_of (userSockets s) (socket_id sock)) of
        (Some rm, Some u) \<Rightarrow>
          if get_prop (settings rm) ''playbackMode'' = JStr ''sync'' then
            if get_prop (settings rm) ''syncControl'' = JStr ''host-only'' \<and> \<not> isHost u
            then (s, [socket_emit sock (Error ''Only host can control synchronized playback'')])
            else (s, [socket_to sock s rc
                        (SyncPlaybackCommand action songId currentTime isPlaying (displayName u))])
          else (s, [])
      | _ \<Rightarrow> (s, [socket_emit sock (Error ''Room not found or user not in room'')]))"

definition on_chat_message ::
  "env \<Rightarrow> socket \<Rightarrow> string \<Rightarrow> jsval \<Rightarrow> server \<Rightarrow> server \<times> emit list" where
  "on_chat_message e sock rc msg s =
     (case (map_of (rooms s) rc, map_of (userSockets s) (socket_id sock)) of
        (Some rm, Some u) \<Rightarrow> (s, [io_to s rc (ChatMessage (displayName u) msg (now e))])
      | _ \<Rightarrow> (s, [socket_emit sock (Error ''Room not found or user not in room'')]))"

definition on_disconnect :: "socket \<Rightarrow> server \<Rightarrow> server \<times> emit list" where
  "on_disconnect sock s0 =
     (let s = socket_leave_all sock s0 in
      case map_of (userSockets s) (socket_id sock) of
        None \<Rightarrow> (s, [])
      | Some u \<Rightarrow>
          let (s3, out) =
            (case map_of (rooms s) (roomCode u) of
               None \<Rightarrow> (s, [])
             | Some rm \<Rightarrow>
                 let rm1 = rm\<lparr>participants := AList.delete (socket_id sock) (participants rm)\<rparr>;
                     rm2 = rm1\<lparr>participantCount := length (participants rm1)\<rparr>;
                     s1 = s\<lparr>rooms := AList.update (roomCode u) rm2 (rooms s)\<rparr>
                 in if isHost u
                    then (s1\<lparr>rooms := AList.delete (roomCode u) (rooms s1),
                             roomCodes := roomCodes s1 - {roomCode u}\<rparr>,
                          [io_to s1 (roomCode u) (RoomClosed ''Host has left the room'')])
                    else (s1, [io_to s1 (roomCode u)
                                 (ParticipantLeft (socket_id sock) (participantCount rm2))]))
          in (s3\<lparr>userSockets := AList.delete (socket_id sock) (userSockets s3)\<rparr>, out))"

subsection \<open>Events and reachable states\<close>

text \<open>
  The inbound events with the payload fields that the handlers destructure. The fields have
  the shapes of the interface: \<^verbatim>\<open>roomCode\<close> is a string (any other value finds no room, as
  an unknown code does), \<^verbatim>\<open>songs\<close> and \<^verbatim>\<open>songIds\<close> are arrays, \<^verbatim>\<open>settings\<close> is given by its
  own properties (none for a missing patch), \<^verbatim>\<open>initialPlaylist\<close> is an array or missing, and
  the other fields are arbitrary values.
\<close>

datatype event =
    JoinRoom string jsval
  | CreateRoom jsval jsval "song list option"
  | UpdateRoomSettings string jsobj
  | AddToRoomPlaylist string "song list"
  | RemoveFromRoomPlaylist string "jsval list"
  | SyncPlayback string jsval jsval jsval jsval
  | ChatMessageEv string jsval
  | Disconnect

text \<open>
  One inbound event on one socket. \<open>None\<close> only for a \<^verbatim>\<open>create-room\<close> whose code generation
  did not end within the random indices supplied.
\<close>

fun handle :: "env \<Rightarrow> socket \<Rightarrow> event \<Rightarrow> server \<Rightarrow> (server \<times> emit list) option" where
  "handle e sock (JoinRoom rc dn) s = Some (on_join_room sock rc dn s)"
| "handle e sock (CreateRoom nm descr ipl) s = on_create_room e sock nm descr ipl s"
| "handle e sock (UpdateRoomSettings rc patch) s = Some (on_update_room_settings sock rc patch s)"
| "handle e sock (AddToRoomPlaylist rc songs) s = Some (on_add_to_room_playlist sock rc songs s)"
| "handle e sock (RemoveFromRoomPlaylist rc ids) s =
     Some (on_remove_from_room_playlist sock rc ids s)"
| "handle e sock (SyncPlayback rc a sg ct pl) s = Some (on_sync_playback sock rc a sg ct pl s)"
| "handle e sock (ChatMessageEv rc msg) s = Some (on_chat_message e sock rc msg s)"
| "handle e sock Disconnect s = Some (on_disconnect sock s)"

text \<open>
  \<^verbatim>\<open>Math.random()\<close> lies in [0, 1), so every index drawn is below \<^verbatim>\<open>chars.length\<close>.
\<close>

definition random_ok :: "env \<Rightarrow> bool" where
  "random_ok e = list_all (\<lambda>d. d < length chars) (random e)"

text \<open>
  The states that the server can be in: any socket may send any event at any time.
\<close>

inductive reachable :: "server \<Rightarrow> bool" where
  reachable_init: "reachable init"
| reachable_step:
    "reachable s \<Longrightarrow> random_ok e \<Longrightarrow> handle e sock ev s = Some (s', out) \<Longrightarrow> reachable s'"

text \<open>
  The same with the connections as socket.io runs them: \<^verbatim>\<open>disconnect\<close> comes once for a
  connection, no event of the connection comes after it, and its id is not used again.
  \<open>reachable_closed gone s\<close>: the server can be in state \<open>s\<close> when \<open>gone\<close> are the ids of the
  sockets that have disconnected.
\<close>

inductive reachable_closed :: "string set \<Rightarrow> server \<Rightarrow> bool" where
  reachable_closed_init: "reachable_closed {} init"
| reachable_closed_step:
    "reachable_closed gone s \<Longrightarrow> random_ok e \<Longrightarrow> socket_id sock \<notin> gone \<Longrightarrow>
     handle e sock ev s = Some (s', out) \<Longrightarrow>
     reachable_closed (if ev = Disconnect then insert (socket_id sock) gone else gone) s'"

text \<open>
  Running a sequence of events from a state; \<open>None\<close> if some handler does not return (or
  an index is not below \<^verbatim>\<open>chars.length\<close>).
\<close>

fun run :: "(env \<times> socket \<times> event) list \<Rightarrow> server \<Rightarrow> server option" where
  "run [] s = Some s"
| "run ((e, sock, ev) # tr) s =
     (if random_ok e
      then (case handle e sock ev s of None \<Rightarrow> None | Some (s', out) \<Rightarrow> run tr s')
      else None)"

text \<open>
  The sockets that have disconnected in a sequence of events; \<open>None\<close> if a socket sends an
  event after its disconnect.
\<close>

fun closed_by :: "(env \<times> socket \<times> event) list \<Rightarrow> string set \<Rightarrow> string set option" where
  "closed_by [] gone = Some gone"
| "closed_by ((e, sock, ev) # tr) gone =
     (if socket_id sock \<in> gone then None
      else closed_by tr (if ev = Disconnect then insert (socket_id sock) gone else gone))"

subsection \<open>Observations used in the statements\<close>

text \<open>The ids in the participants map of the live room \<open>c\<close> (none if there is no such room).\<close>

definition members :: "server \<Rightarrow> string \<Rightarrow> string set" where
  "members s c = (case map_of (rooms s) c of None \<Rightarrow> {} | Some rm \<Rightarrow> fst ` set (participants rm))"

text \<open>The room a connection is bound to in \<^verbatim>\<open>userSockets\<close>.\<close>

definition bound_room :: "server \<Rightarrow> string \<Rightarrow> string option" where
  "bound_room s sid = map_option roomCode (map_of (userSockets s) sid)"

definition track_ids :: "song list \<Rightarrow> jsval list" where
  "track_ids pl = map (\<lambda>sng. get_prop sng ''_id'') pl"

text \<open>A room code as the specification describes it: six characters of \<open>chars\<close>.\<close>

definition valid_code :: "string \<Rightarrow> bool" where
  "valid_code c = (length c = 6 \<and> set c \<subseteq> set chars)"

text \<open>
  The random indices that spell a code: the position of each character in \<open>chars\<close>.
\<close>

fun index_of :: "char \<Rightarrow> string \<Rightarrow> nat" where
  "index_of x [] = 0"
| "index_of x (y # ys) = (if x = y then 0 else Suc (index_of x ys))"

definition spell :: "string \<Rightarrow> nat list" where
  "spell c = map (\<lambda>x. index_of x chars) c"

text \<open>The typing of the settings object that the specification describes.\<close>

definition valid_settings :: "jsobj \<Rightarrow> bool" where
  "valid_settings st =
     (get_prop st ''playbackMode'' \<in> {JStr ''individual'', JStr ''sync''} \<and>
      get_prop st ''syncControl'' \<in> {JStr ''host-only'', JStr ''anyone''})"

text \<open>A patch that respects that typing wherever it sets one of the two keys.\<close>

definition valid_patch :: "jsobj \<Rightarrow> bool" where
  "valid_patch p =
     ((map_of p ''playbackMode'' = None \<or>
         get_prop p ''playbackMode'' \<in> {JStr ''individual'', JStr ''sync''}) \<and>
      (map_of p ''syncControl'' = None \<or>
         get_prop p ''syncControl'' \<in> {JStr ''host-only'', JStr ''anyone''}))"

text \<open>
  Invariants of the reachable states. \<open>codes_ok\<close>: every live room is registered under its
  own code, which is reserved and well formed. \<open>hosts_ok\<close>: a session marked host is bound to
  a live room whose \<^verbatim>\<open>hostId\<close> is that connection. \<open>keys_ok\<close>: the association lists have
  distinct keys, as Maps do.
\<close>

definition codes_ok :: "server \<Rightarrow> bool" where
  "codes_ok s =
     (\<forall>c rm. map_of (rooms s) c = Some rm \<longrightarrow> code rm = c \<and> c \<in> roomCodes s \<and> valid_code c)"

definition hosts_ok :: "server \<Rightarrow> bool" where
  "hosts_ok s =
     (\<forall>sid u. map_of (userSockets s) sid = Some u \<longrightarrow> isHost u \<longrightarrow>
        (\<exists>rm. map_of (rooms s) (roomCode u) = Some rm \<and> hostId rm = sid))"

definition keys_ok :: "server \<Rightarrow> bool" where
  "keys_ok s =
     (distinct (map fst (rooms s)) \<and> distinct (map fst (userSockets s)) \<and>
      (\<forall>c rm. map_of (rooms s) c = Some rm \<longrightarrow> distinct (map fst (participants rm))))"

text \<open>
  \<open>audience_ok\<close>: a connection that is in the participants map of the room its session is
  bound to is in the socket.io room of that code, so that it receives what is emitted to the
  room.
\<close>

definition audience_ok :: "server \<Rightarrow> bool" where
  "audience_ok s =
     (\<forall>sid u. map_of (userSockets s) sid = Some u \<longrightarrow> sid \<in> members s (roomCode u) \<longrightarrow>
        sid \<in> io_rooms s (roomCode u))"

text \<open>
  \<open>connected_ok\<close>: a participant of a live room that has not disconnected is in the socket.io
  room of the room's code.
\<close>

definition connected_ok :: "string set \<Rightarrow> server \<Rightarrow> bool" where
  "connected_ok gone s =
     (\<forall>c p. p \<in> members s c \<longrightarrow> p \<notin> gone \<longrightarrow> p \<in> io_rooms s c)"

subsection \<open>Scenarios\<close>

definition alice :: socket where
  "alice = \<lparr>socket_id = ''alice'', handshake_address = ''10.0.0.1''\<rparr>"

definition bob :: socket where
  "bob = \<lparr>socket_id = ''bob'', handshake_address = ''10.0.0.2''\<rparr>"

definition carol :: socket where
  "carol = \<lparr>socket_id = ''carol'', handshake_address = ''10.0.0.3''\<rparr>"

text \<open>Random indices that spell AAAAAA and BBBBBB, and an environment with none.\<close>

definition draws_A :: env where
  "draws_A = \<lparr>random = [0, 0, 0, 0, 0, 0], now = 1\<rparr>"

definition draws_B :: env where
  "draws_B = \<lparr>random = [1, 1, 1, 1, 1, 1], now = 2\<rparr>"

definition no_draws :: env where
  "no_draws = \<lparr>random = [], now = 3\<rparr>"

definition t1 :: song where
  "t1 = [(''_id'', JStr ''t1''), (''title'', JStr ''One'')]"

definition t2 :: song where
  "t2 = [(''_id'', JStr ''t2''), (''title'', JStr ''Two'')]"

definition t3 :: song where
  "t3 = [(''_id'', JStr ''t3''), (''title'', JStr ''Three'')]"

text \<open>Alice creates a room (it gets the code AAAAAA).\<close>

definition tr_one :: "(env \<times> socket \<times> event) list" where
  "tr_one = [(draws_A, alice, CreateRoom JUndefined JUndefined None)]"

definition st_one :: server where
  "st_one = the (run tr_one init)"

text \<open>Alice creates a room with three tracks and Bob joins it.\<close>

definition tr_songs :: "(env \<times> socket \<times> event) list" where
  "tr_songs = [(draws_A, alice, CreateRoom (JStr ''Jazz'') (JStr ''Late'') (Some [t1, t2, t3])),
               (no_draws, bob, JoinRoom ''AAAAAA'' (JStr ''Bob''))]"

definition st_songs :: server where
  "st_songs = the (run tr_songs init)"

text \<open>Alice creates a room and then, on the same connection, a second one (BBBBBB).\<close>

definition tr_two :: "(env \<times> socket \<times> event) list" where
  "tr_two = [(draws_A, alice, CreateRoom JUndefined JUndefined None),
             (draws_B, alice, CreateRoom JUndefined JUndefined None)]"

definition st_two :: server where
  "st_two = the (run tr_two init)"

text \<open>Alice creates AAAAAA, Bob creates BBBBBB.\<close>

definition tr_ab :: "(env \<times> socket \<times> event) list" where
  "tr_ab = [(draws_A, alice, CreateRoom JUndefined JUndefined None),
            (draws_B, bob, CreateRoom JUndefined JUndefined None)]"

definition st_ab :: server where
  "st_ab = the (run tr_ab init)"

text \<open>Then Carol joins AAAAAA and, on the same connection, BBBBBB.\<close>

definition tr_carol :: "(env \<times> socket \<times> event) list" where
  "tr_carol = tr_ab @ [(no_draws, carol, JoinRoom ''AAAAAA'' (JStr ''Carol''))]"

definition st_carol :: server where
  "st_carol = the (run tr_carol init)"

text \<open>Alice creates AAAAAA and disconnects.\<close>

definition tr_closed :: "(env \<times> socket \<times> event) list" where
  "tr_closed = tr_one @ [(no_draws, alice, Disconnect)]"

definition st_closed :: server where
  "st_closed = the (run tr_closed init)"

text \<open>In the room with Bob, Alice switches the playback mode to sync.\<close>

definition tr_sync :: "(env \<times> socket \<times> event) list" where
  "tr_sync = tr_songs @
     [(no_draws, alice, UpdateRoomSettings ''AAAAAA'' [(''playbackMode'', JStr ''sync'')])]"

definition st_sync :: server where
  "st_sync = the (run tr_sync init)"

text \<open>Alice sets the playback mode of her room to a value outside the two modes.\<close>

definition tr_banana :: "(env \<times> socket \<times> event) list" where
  "tr_banana = tr_one @
     [(no_draws, alice, UpdateRoomSettings ''AAAAAA'' [(''playbackMode'', JStr ''banana'')])]"

definition st_banana :: server where
  "st_banana = the (run tr_banana init)"

text \<open>Carol, still in AAAAAA, then joins BBBBBB.\<close>

definition tr_carol2 :: "(env \<times> socket \<times> event) list" where
  "tr_carol2 = tr_carol @ [(no_draws, carol, JoinRoom ''BBBBBB'' (JStr ''Carol''))]"

definition st_carol2 :: server where
  "st_carol2 = the (run tr_carol2 init)"

text \<open>
  In Alice's room in sync mode, Bob, a guest there, creates a room of his own (BBBBBB); then
  Alice joins Bob's room.
\<close>

definition tr_bobhost :: "(env \<times> socket \<times> event) list" where
  "tr_bobhost = tr_sync @ [(draws_B, bob, CreateRoom JUndefined JUndefined None)]"

definition st_bobhost :: server where
  "st_bobhost = the (run tr_bobhost init)"

definition tr_aliceguest :: "(env \<times> socket \<times> event) list" where
  "tr_aliceguest = tr_bobhost @ [(no_draws, alice, JoinRoom ''BBBBBB'' JUndefined)]"

definition st_aliceguest :: server where
  "st_aliceguest = the (run tr_aliceguest init)"

lemmas scenario_defs =
  alice_def bob_def carol_def draws_A_def draws_B_def no_draws_def t1_def t2_def t3_def
  tr_one_def st_one_def tr_songs_def st_songs_def tr_two_def st_two_def tr_ab_def st_ab_def
  tr_carol_def st_carol_def tr_closed_def st_closed_def tr_sync_def st_sync_def
  tr_banana_def st_banana_def tr_carol2_def st_carol2_def tr_bobhost_def st_bobhost_def
  tr_aliceguest_def st_aliceguest_def

lemmas handler_defs =
  on_join_room_def on_create_room_def on_update_room_settings_def on_add_to_room_playlist_def
  on_remove_from_room_playlist_def on_sync_playback_def on_chat_message_def on_disconnect_def
  socket_emit_def io_to_def socket_to_def socket_join_def socket_leave_all_def view_def
  js_or_def get_prop_def spread_def AList.clearjunk.simps

lemmas eval_defs =
  scenario_defs handler_defs init_def random_ok_def chars_def charAt_def
  generateRoomCode.simps numeral_eq_Suc Let_def

section \<open>Basic facts\<close>

lemma run_reachable: "reachable s \<Longrightarrow> run tr s = Some s' \<Longrightarrow> reachable s'"
proof (induction tr arbitrary: s)
  case Nil
  then show ?case by simp
next
  case (Cons x tr)
  obtain e sock ev where x: "x = (e, sock, ev)"
    by (cases x) auto
  from Cons.prems(2) x have ok: "random_ok e"
    by (auto split: if_splits)
  from Cons.prems(2) x ok obtain s1 out where
    h: "handle e sock ev s = Some (s1, out)" and r: "run tr s1 = Some s'"
    by (auto split: option.splits)
  from Cons.prems(1) ok h have "reachable s1"
    by (rule reachable_step)
  with r show ?case
    by (rule Cons.IH [rotated])
qed

lemma run_the_reachable: "run tr init \<noteq> None \<Longrightarrow> reachable (the (run tr init))"
  using run_reachable [OF reachable_init] by fastforce

lemma count_list_filter:
  "count_list (filter P xs) x = (if P x then count_list xs x else 0)"
  by (induction xs) auto

section \<open>The scenarios are reachable\<close>

lemma reachable_st_one: "reachable st_one"
  unfolding st_one_def by (rule run_the_reachable) (simp add: eval_defs)

lemma reachable_st_songs: "reachable st_songs"
  unfolding st_songs_def by (rule run_the_reachable) (simp add: eval_defs)

lemma reachable_st_two: "reachable st_two"
  unfolding st_two_def by (rule run_the_reachable) (simp add: eval_defs)

lemma reachable_st_ab: "reachable st_ab"
  unfolding st_ab_def by (rule run_the_reachable) (simp add: eval_defs)

lemma reachable_st_carol: "reachable st_carol"
  unfolding st_carol_def by (rule run_the_reachable) (simp add: eval_defs)

lemma reachable_st_closed: "reachable st_closed"
  unfolding st_closed_def by (rule run_the_reachable) (simp add: eval_defs)

lemma reachable_st_sync: "reachable st_sync"
  unfolding st_sync_def by (rule run_the_reachable) (simp add: eval_defs)

lemma reachable_st_banana: "reachable st_banana"
  unfolding st_banana_def by (rule run_the_reachable) (simp add: eval_defs)

lemma reachable_st_carol2: "reachable st_carol2"
  unfolding st_carol2_def by (rule run_the_reachable) (simp add: eval_defs)

section \<open>Code generation and the invariants of reachable states\<close>

lemma draw_code_chars:
  "list_all (\<lambda>d. d < length chars) ds \<Longrightarrow> draw_code n ds acc = Some (c, rest) \<Longrightarrow>
     length c = length acc + n \<and> set c \<subseteq> set acc \<union> set chars \<and>
     list_all (\<lambda>d. d < length chars) rest"
proof (induction n ds acc rule: draw_code.induct)
  case (1 ds acc)
  then show ?case by auto
next
  case (2 n acc)
  then show ?case by simp
next
  case (3 n d ds acc)
  from "3.prems" have d: "d < length chars" and ds: "list_all (\<lambda>d. d < length chars) ds"
    and rec: "draw_code n ds (acc @ charAt chars d) = Some (c, rest)"
    by simp_all
  from d have ch: "charAt chars d = [chars ! d]" "chars ! d \<in> set chars"
    by (simp_all add: charAt_def)
  from "3.IH" [OF ds rec] ch show ?case
    by auto
qed

lemma generateRoomCode_result:
  "generateRoomCode ds s = Some (c, rest, s') \<Longrightarrow>
     c \<notin> roomCodes s \<and> s' = s\<lparr>roomCodes := insert c (roomCodes s)\<rparr>"
proof (induction ds s rule: generateRoomCode.induct)
  case (1 ds s)
  from "1.prems" obtain c0 rest0 where drawn: "draw_code 6 ds [] = Some (c0, rest0)"
    by (subst (asm) generateRoomCode.simps) (auto split: option.splits)
  show ?case
  proof (cases "c0 \<in> roomCodes s")
    case True
    with "1.prems" drawn have "generateRoomCode rest0 s = Some (c, rest, s')"
      by (subst (asm) generateRoomCode.simps) simp
    from "1.IH" [OF drawn refl True this] show ?thesis .
  next
    case False
    with "1.prems" drawn show ?thesis
      by (subst (asm) generateRoomCode.simps) auto
  qed
qed

lemma generateRoomCode_valid:
  "list_all (\<lambda>d. d < length chars) ds \<Longrightarrow> generateRoomCode ds s = Some (c, rest, s') \<Longrightarrow>
     valid_code c"
proof (induction ds s rule: generateRoomCode.induct)
  case (1 ds s)
  from "1.prems"(2) obtain c0 rest0 where drawn: "draw_code 6 ds [] = Some (c0, rest0)"
    by (subst (asm) generateRoomCode.simps) (auto split: option.splits)
  from draw_code_chars [OF "1.prems"(1) drawn]
  have c0: "length c0 = 6" "set c0 \<subseteq> set chars" and rest0: "list_all (\<lambda>d. d < length chars) rest0"
    by auto
  show ?case
  proof (cases "c0 \<in> roomCodes s")
    case True
    with "1.prems"(2) drawn have "generateRoomCode rest0 s = Some (c, rest, s')"
      by (subst (asm) generateRoomCode.simps) simp
    from "1.IH" [OF drawn refl True rest0 this] show ?thesis .
  next
    case False
    with "1.prems"(2) drawn have "c = c0"
      by (subst (asm) generateRoomCode.simps) simp
    with c0 show ?thesis
      by (simp add: valid_code_def)
  qed
qed

lemmas map_simps = update_conv' delete_conv'

lemma codes_ok_join: "codes_ok s \<Longrightarrow> codes_ok (fst (on_join_room sock rc dn s))"
  by (auto simp: codes_ok_def on_join_room_def socket_join_def Let_def map_simps
      split: option.splits if_splits)

lemma codes_ok_create:
  assumes "codes_ok s" and "random_ok e"
    and "on_create_room e sock nm descr ipl s = Some (s', out)"
  shows "codes_ok s'"
proof -
  from assms(3) obtain rc rest s0 where gen: "generateRoomCode (random e) s = Some (rc, rest, s0)"
    by (auto simp: on_create_room_def split: option.splits)
  from generateRoomCode_result [OF gen] have s0: "s0 = s\<lparr>roomCodes := insert rc (roomCodes s)\<rparr>"
    by simp
  from assms(2) gen have "valid_code rc"
    unfolding random_ok_def by (rule generateRoomCode_valid)
  with assms(1,3) gen s0 show ?thesis
    by (auto simp: codes_ok_def on_create_room_def socket_join_def Let_def map_simps
        split: if_splits)
qed

lemma codes_ok_update: "codes_ok s \<Longrightarrow> codes_ok (fst (on_update_room_settings sock rc patch s))"
  by (auto simp: codes_ok_def on_update_room_settings_def Let_def map_simps
      split: option.splits if_splits)

lemma codes_ok_add: "codes_ok s \<Longrightarrow> codes_ok (fst (on_add_to_room_playlist sock rc songs s))"
  by (auto simp: codes_ok_def on_add_to_room_playlist_def Let_def map_simps
      split: option.splits if_splits)

lemma codes_ok_remove:
  "codes_ok s \<Longrightarrow> codes_ok (fst (on_remove_from_room_playlist sock rc ids s))"
  by (auto simp: codes_ok_def on_remove_from_room_playlist_def Let_def map_simps
      split: option.splits if_splits)

lemma sync_state: "fst (on_sync_playback sock rc a sg ct pl s) = s"
  by (auto simp: on_sync_playback_def split: option.splits)

lemma chat_state: "fst (on_chat_message e sock rc msg s) = s"
  by (auto simp: on_chat_message_def split: option.splits)

lemma codes_ok_disconnect: "codes_ok s \<Longrightarrow> codes_ok (fst (on_disconnect sock s))"
  by (auto simp: codes_ok_def on_disconnect_def socket_leave_all_def Let_def map_simps
      split: option.splits if_splits)

lemma hosts_okI:
  "(\<And>sid u. map_of (userSockets s) sid = Some u \<Longrightarrow> isHost u \<Longrightarrow>
      \<exists>rm. map_of (rooms s) (roomCode u) = Some rm \<and> hostId rm = sid) \<Longrightarrow> hosts_ok s"
  by (simp add: hosts_ok_def)

lemma hosts_ok_live:
  "hosts_ok s \<Longrightarrow> map_of (userSockets s) sid = Some u \<Longrightarrow> isHost u \<Longrightarrow>
     \<exists>rm. map_of (rooms s) (roomCode u) = Some rm"
  unfolding hosts_ok_def by blast

lemma hosts_ok_host:
  "hosts_ok s \<Longrightarrow> map_of (userSockets s) sid = Some u \<Longrightarrow> isHost u \<Longrightarrow>
     map_of (rooms s) (roomCode u) = Some rm \<Longrightarrow> hostId rm = sid"
  unfolding hosts_ok_def by fastforce

lemma hosts_ok_frame:
  assumes "hosts_ok s"
    and users: "\<And>sid v. map_of (userSockets s') sid = Some v \<Longrightarrow> isHost v \<Longrightarrow>
          map_of (userSockets s) sid = Some v"
    and rooms: "\<And>c rm. map_of (rooms s) c = Some rm \<Longrightarrow>
          \<exists>rm'. map_of (rooms s') c = Some rm' \<and> hostId rm' = hostId rm"
  shows "hosts_ok s'"
proof (rule hosts_okI)
  fix sid v
  assume v: "map_of (userSockets s') sid = Some v" and host: "isHost v"
  from users [OF v host] have old: "map_of (userSockets s) sid = Some v" .
  from hosts_ok_live [OF assms(1) old host] obtain rm0
    where rm0: "map_of (rooms s) (roomCode v) = Some rm0"
    by blast
  from hosts_ok_host [OF assms(1) old host rm0] rooms [OF rm0]
  show "\<exists>rm. map_of (rooms s') (roomCode v) = Some rm \<and> hostId rm = sid"
    by auto
qed

lemma hosts_ok_join: "hosts_ok s \<Longrightarrow> hosts_ok (fst (on_join_room sock rc dn s))"
  by (erule hosts_ok_frame)
    (auto simp: on_join_room_def socket_join_def Let_def map_simps
      split: option.splits if_splits)

lemma create_effect:
  assumes "on_create_room e sock nm descr ipl s = Some (s', out)"
  obtains rc rest rm u where
    "generateRoomCode (random e) s = Some (rc, rest, s\<lparr>roomCodes := insert rc (roomCodes s)\<rparr>)"
    and "rc \<notin> roomCodes s"
    and "rooms s' = AList.update rc rm (rooms s)"
    and "userSockets s' = AList.update (socket_id sock) u (userSockets s)"
    and "roomCodes s' = insert rc (roomCodes s)"
    and "io_rooms s' = (io_rooms s)(rc := insert (socket_id sock) (io_rooms s rc))"
    and "code rm = rc" and "hostId rm = socket_id sock"
    and "name rm = js_or nm (JStr ''Music Room'')"
    and "description rm = js_or descr (JStr [])"
    and "playlist rm = (case ipl of None \<Rightarrow> [] | Some pl \<Rightarrow> pl)"
    and "settings rm = [(''playbackMode'', JStr ''individual''), (''syncControl'', JStr ''host-only'')]"
    and "map fst (participants rm) = [socket_id sock]"
    and "isHost u" and "roomCode u = rc"
    and "out = [({socket_id sock}, RoomCreated (view rm)
           \<lparr>id' = socket_id sock, displayName = JStr ''Host'', isHost = True,
            socketId = socket_id sock, ip = handshake_address sock\<rparr>)]"
proof -
  from assms obtain rc rest s0 where gen: "generateRoomCode (random e) s = Some (rc, rest, s0)"
    by (auto simp: on_create_room_def split: option.splits)
  from generateRoomCode_result [OF gen] have s0: "s0 = s\<lparr>roomCodes := insert rc (roomCodes s)\<rparr>"
    and fresh: "rc \<notin> roomCodes s"
    by simp_all
  from assms gen s0 fresh show ?thesis
    by (intro that [of rc rest])
      (auto simp: on_create_room_def socket_join_def socket_emit_def Let_def)
qed

lemma codes_ok_fresh: "codes_ok s \<Longrightarrow> rc \<notin> roomCodes s \<Longrightarrow> map_of (rooms s) rc = None"
  by (cases "map_of (rooms s) rc") (auto simp: codes_ok_def)

lemma hosts_ok_create:
  assumes "hosts_ok s" and "codes_ok s"
    and "on_create_room e sock nm descr ipl s = Some (s', out)"
  shows "hosts_ok s'"
proof -
  from assms(3) obtain rc rm u where fresh: "rc \<notin> roomCodes s"
    and rooms': "rooms s' = AList.update rc rm (rooms s)"
    and users': "userSockets s' = AList.update (socket_id sock) u (userSockets s)"
    and rm: "hostId rm = socket_id sock" and u: "roomCode u = rc"
    by (rule create_effect)
  from assms(2) fresh have none: "map_of (rooms s) rc = None"
    by (rule codes_ok_fresh)
  show ?thesis
  proof (rule hosts_okI)
    fix sid v
    assume v: "map_of (userSockets s') sid = Some v" and host: "isHost v"
    show "\<exists>rm. map_of (rooms s') (roomCode v) = Some rm \<and> hostId rm = sid"
    proof (cases "sid = socket_id sock")
      case True
      with v users' have "v = u"
        by (simp add: map_simps)
      with True rm u show ?thesis
        by (simp add: rooms' map_simps)
    next
      case False
      with v users' have old: "map_of (userSockets s) sid = Some v"
        by (simp add: map_simps)
      from hosts_ok_live [OF assms(1) old host] obtain rm0
        where rm0: "map_of (rooms s) (roomCode v) = Some rm0"
        by blast
      with none have "roomCode v \<noteq> rc"
        by auto
      with rm0 hosts_ok_host [OF assms(1) old host rm0] show ?thesis
        by (simp add: rooms' map_simps)
    qed
  qed
qed

lemma hosts_ok_update: "hosts_ok s \<Longrightarrow> hosts_ok (fst (on_update_room_settings sock rc patch s))"
  by (erule hosts_ok_frame)
    (auto simp: on_update_room_settings_def Let_def map_simps
      split: option.splits if_splits)

lemma hosts_ok_add: "hosts_ok s \<Longrightarrow> hosts_ok (fst (on_add_to_room_playlist sock rc songs s))"
  by (erule hosts_ok_frame)
    (auto simp: on_add_to_room_playlist_def Let_def map_simps
      split: option.splits if_splits)

lemma hosts_ok_remove:
  "hosts_ok s \<Longrightarrow> hosts_ok (fst (on_remove_from_room_playlist sock rc ids s))"
  by (erule hosts_ok_frame)
    (auto simp: on_remove_from_room_playlist_def Let_def map_simps
      split: option.splits if_splits)

lemma disconnect_unbound:
  "map_of (userSockets s) (socket_id sock) = None \<Longrightarrow>
     on_disconnect sock s = (socket_leave_all sock s, [])"
  by (simp add: on_disconnect_def socket_leave_all_def)

lemma disconnect_no_room:
  "map_of (userSockets s) (socket_id sock) = Some u \<Longrightarrow> map_of (rooms s) (roomCode u) = None \<Longrightarrow>
     on_disconnect sock s =
       ((socket_leave_all sock s)\<lparr>userSockets := AList.delete (socket_id sock) (userSockets s)\<rparr>, [])"
  by (simp add: on_disconnect_def socket_leave_all_def)

lemma disconnect_host:
  "map_of (userSockets s) (socket_id sock) = Some u \<Longrightarrow>
   map_of (rooms s) (roomCode u) = Some rm \<Longrightarrow> isHost u \<Longrightarrow>
     on_disconnect sock s =
       ((socket_leave_all sock s)\<lparr>rooms := AList.delete (roomCode u) (rooms s),
          roomCodes := roomCodes s - {roomCode u},
          userSockets := AList.delete (socket_id sock) (userSockets s)\<rparr>,
        [(io_rooms s (roomCode u) - {socket_id sock}, RoomClosed ''Host has left the room'')])"
  by (simp add: on_disconnect_def socket_leave_all_def io_to_def Let_def delete_update_same)

lemma disconnect_guest:
  "map_of (userSockets s) (socket_id sock) = Some u \<Longrightarrow>
   map_of (rooms s) (roomCode u) = Some rm \<Longrightarrow> \<not> isHost u \<Longrightarrow>
     on_disconnect sock s =
       ((socket_leave_all sock s)\<lparr>rooms := AList.update (roomCode u)
            (rm\<lparr>participants := AList.delete (socket_id sock) (participants rm),
                participantCount := length (AList.delete (socket_id sock) (participants rm))\<rparr>)
            (rooms s),
          userSockets := AList.delete (socket_id sock) (userSockets s)\<rparr>,
        [(io_rooms s (roomCode u) - {socket_id sock},
          ParticipantLeft (socket_id sock)
            (length (AList.delete (socket_id sock) (participants rm))))])"
  by (simp add: on_disconnect_def socket_leave_all_def io_to_def Let_def)

lemma hosts_ok_unique:
  assumes "hosts_ok s"
    and "map_of (userSockets s) a = Some u" and "isHost u"
    and "map_of (userSockets s) b = Some v" and "isHost v"
    and "roomCode u = roomCode v"
  shows "a = b"
proof -
  from hosts_ok_live [OF assms(1,2,3)] obtain rm where rm: "map_of (rooms s) (roomCode u) = Some rm"
    by blast
  from hosts_ok_host [OF assms(1,2,3) rm] have "hostId rm = a" .
  moreover from rm assms(6) have "map_of (rooms s) (roomCode v) = Some rm"
    by simp
  from hosts_ok_host [OF assms(1,4,5) this] have "hostId rm = b" .
  ultimately show ?thesis
    by simp
qed

lemma hosts_ok_disconnect:
  assumes "hosts_ok s"
  shows "hosts_ok (fst (on_disconnect sock s))"
proof (cases "map_of (userSockets s) (socket_id sock)")
  case None
  with assms show ?thesis
    by (simp add: disconnect_unbound socket_leave_all_def hosts_ok_def)
next
  case (Some u)
  show ?thesis
  proof (cases "map_of (rooms s) (roomCode u)")
    case None
    with Some show ?thesis
      by (intro hosts_ok_frame [OF assms])
        (auto simp: disconnect_no_room socket_leave_all_def map_simps split: if_splits)
  next
    case (Some rm)
    note room = this
    show ?thesis
    proof (cases "isHost u")
      case True
      show ?thesis
      proof (rule hosts_okI)
        fix sid v
        assume "map_of (userSockets (fst (on_disconnect sock s))) sid = Some v" and host: "isHost v"
        with \<open>map_of (userSockets s) (socket_id sock) = Some u\<close> room True
        have other: "sid \<noteq> socket_id sock" and v: "map_of (userSockets s) sid = Some v"
          by (auto simp: disconnect_host socket_leave_all_def map_simps split: if_splits)
        from hosts_ok_unique [OF assms v host \<open>map_of (userSockets s) (socket_id sock) = Some u\<close> True]
          other
        have "roomCode v \<noteq> roomCode u"
          by auto
        moreover from hosts_ok_live [OF assms v host] obtain rm0
          where rm0: "map_of (rooms s) (roomCode v) = Some rm0"
          by blast
        moreover note hosts_ok_host [OF assms v host rm0]
        ultimately show "\<exists>rm. map_of (rooms (fst (on_disconnect sock s))) (roomCode v) = Some rm \<and>
            hostId rm = sid"
          using \<open>map_of (userSockets s) (socket_id sock) = Some u\<close> room True
          by (simp add: disconnect_host socket_leave_all_def map_simps)
      qed
    next
      case False
      with \<open>map_of (userSockets s) (socket_id sock) = Some u\<close> room show ?thesis
        by (intro hosts_ok_frame [OF assms])
          (auto simp: disconnect_guest socket_leave_all_def map_simps split: if_splits)
    qed
  qed
qed

lemma keys_okI:
  "distinct (map fst (rooms s)) \<Longrightarrow> distinct (map fst (userSockets s)) \<Longrightarrow>
   (\<And>c rm. map_of (rooms s) c = Some rm \<Longrightarrow> distinct (map fst (participants rm))) \<Longrightarrow>
   keys_ok s"
  by (simp add: keys_ok_def)

lemma keys_ok_rooms: "keys_ok s \<Longrightarrow> distinct (map fst (rooms s))"
  and keys_ok_sessions: "keys_ok s \<Longrightarrow> distinct (map fst (userSockets s))"
  and keys_ok_participants:
    "keys_ok s \<Longrightarrow> map_of (rooms s) c = Some rm \<Longrightarrow> distinct (map fst (participants rm))"
  unfolding keys_ok_def by blast+

lemma keys_ok_join: "keys_ok s \<Longrightarrow> keys_ok (fst (on_join_room sock rc dn s))"
  by (rule keys_okI)
    (auto simp: on_join_room_def socket_join_def Let_def map_simps distinct_update distinct_delete
      keys_ok_rooms keys_ok_sessions simp del: map_of_eq_Some_iff
      split: option.splits if_splits
      dest: keys_ok_participants)

lemma keys_ok_create:
  assumes "keys_ok s" and "on_create_room e sock nm descr ipl s = Some (s', out)"
  shows "keys_ok s'"
proof -
  from assms(2) obtain rc rest s0 where gen: "generateRoomCode (random e) s = Some (rc, rest, s0)"
    by (auto simp: on_create_room_def split: option.splits)
  from generateRoomCode_result [OF gen] have s0: "s0 = s\<lparr>roomCodes := insert rc (roomCodes s)\<rparr>"
    by simp
  with assms gen show ?thesis
    by (intro keys_okI)
      (auto simp: on_create_room_def socket_join_def Let_def map_simps distinct_update distinct_delete
      keys_ok_rooms keys_ok_sessions simp del: map_of_eq_Some_iff
        split: if_splits dest: keys_ok_participants)
qed

lemma keys_ok_update: "keys_ok s \<Longrightarrow> keys_ok (fst (on_update_room_settings sock rc patch s))"
  by (rule keys_okI)
    (auto simp: on_update_room_settings_def Let_def map_simps distinct_update distinct_delete
      keys_ok_rooms keys_ok_sessions simp del: map_of_eq_Some_iff
      split: option.splits if_splits
      dest: keys_ok_participants)

lemma keys_ok_add: "keys_ok s \<Longrightarrow> keys_ok (fst (on_add_to_room_playlist sock rc songs s))"
  by (rule keys_okI)
    (auto simp: on_add_to_room_playlist_def Let_def map_simps distinct_update distinct_delete
      keys_ok_rooms keys_ok_sessions simp del: map_of_eq_Some_iff
      split: option.splits if_splits
      dest: keys_ok_participants)

lemma keys_ok_remove:
  "keys_ok s \<Longrightarrow> keys_ok (fst (on_remove_from_room_playlist sock rc ids s))"
  by (rule keys_okI)
    (auto simp: on_remove_from_room_playlist_def Let_def map_simps distinct_update distinct_delete
      keys_ok_rooms keys_ok_sessions simp del: map_of_eq_Some_iff
      split: option.splits if_splits
      dest: keys_ok_participants)

lemma keys_ok_disconnect: "keys_ok s \<Longrightarrow> keys_ok (fst (on_disconnect sock s))"
  by (rule keys_okI)
    (auto simp: on_disconnect_def socket_leave_all_def Let_def map_simps distinct_update distinct_delete
      keys_ok_rooms keys_ok_sessions simp del: map_of_eq_Some_iff
      split: option.splits if_splits
      dest: keys_ok_participants)

lemma inv_handle:
  assumes inv: "codes_ok s \<and> hosts_ok s \<and> keys_ok s"
    and "random_ok e" and h: "handle e sock ev s = Some (s', out)"
  shows "codes_ok s' \<and> hosts_ok s' \<and> keys_ok s'"
proof (cases ev)
  case (JoinRoom rc dn)
  with h have "s' = fst (on_join_room sock rc dn s)"
    by auto
  with inv show ?thesis
    by (simp add: codes_ok_join hosts_ok_join keys_ok_join)
next
  case (CreateRoom nm descr ipl)
  with h have "on_create_room e sock nm descr ipl s = Some (s', out)"
    by simp
  with inv \<open>random_ok e\<close> show ?thesis
    by (blast intro: codes_ok_create hosts_ok_create keys_ok_create)
next
  case (UpdateRoomSettings rc patch)
  with h have "s' = fst (on_update_room_settings sock rc patch s)"
    by auto
  with inv show ?thesis
    by (simp add: codes_ok_update hosts_ok_update keys_ok_update)
next
  case (AddToRoomPlaylist rc songs)
  with h have "s' = fst (on_add_to_room_playlist sock rc songs s)"
    by auto
  with inv show ?thesis
    by (simp add: codes_ok_add hosts_ok_add keys_ok_add)
next
  case (RemoveFromRoomPlaylist rc ids)
  with h have "s' = fst (on_remove_from_room_playlist sock rc ids s)"
    by auto
  with inv show ?thesis
    by (simp add: codes_ok_remove hosts_ok_remove keys_ok_remove)
next
  case (SyncPlayback rc a sg ct pl)
  with h have "s' = fst (on_sync_playback sock rc a sg ct pl s)"
    by auto
  with inv show ?thesis
    by (simp add: sync_state)
next
  case (ChatMessageEv rc msg)
  with h have "s' = fst (on_chat_message e sock rc msg s)"
    by auto
  with inv show ?thesis
    by (simp add: chat_state)
next
  case Disconnect
  with h have "s' = fst (on_disconnect sock s)"
    by auto
  with inv show ?thesis
    by (simp add: codes_ok_disconnect hosts_ok_disconnect keys_ok_disconnect)
qed

lemma inv_init: "codes_ok init \<and> hosts_ok init \<and> keys_ok init"
  by (simp add: codes_ok_def hosts_ok_def keys_ok_def init_def)

lemma reachable_inv: "reachable s \<Longrightarrow> codes_ok s \<and> hosts_ok s \<and> keys_ok s"
proof (induction rule: reachable.induct)
  case reachable_init
  show ?case by (rule inv_init)
next
  case (reachable_step s e sock ev s' out)
  from reachable_step.IH reachable_step.hyps(2,3) show ?case
    by (rule inv_handle)
qed

text \<open>The reserved set changes only in create-room (grows) and in disconnect (shrinks).\<close>

lemma roomCodes_shrinks_only_on_close:
  assumes "handle e sock ev s = Some (s', out)" and "c \<in> roomCodes s" and "c \<notin> roomCodes s'"
  shows "ev = Disconnect \<and> map_of (rooms s) c \<noteq> None \<and> map_of (rooms s') c = None"
proof (cases ev)
  case Disconnect
  with assms(1) have s': "s' = fst (on_disconnect sock s)"
    by auto
  show ?thesis
  proof (cases "map_of (userSockets s) (socket_id sock)")
    case None
    with s' assms(2,3) show ?thesis
      by (simp add: disconnect_unbound socket_leave_all_def)
  next
    case (Some u)
    show ?thesis
    proof (cases "map_of (rooms s) (roomCode u)")
      case None
      with Some s' assms(2,3) show ?thesis
        by (simp add: disconnect_no_room socket_leave_all_def)
    next
      case (Some rm)
      with \<open>map_of (userSockets s) (socket_id sock) = Some u\<close> s' assms(2,3) Disconnect show ?thesis
        by (cases "isHost u")
          (auto simp: disconnect_host disconnect_guest socket_leave_all_def map_simps)
    qed
  qed
next
  case (CreateRoom nm descr ipl)
  with assms(1) have "on_create_room e sock nm descr ipl s = Some (s', out)"
    by simp
  then obtain rc where "roomCodes s' = insert rc (roomCodes s)"
    by (rule create_effect)
  with assms(2,3) show ?thesis
    by simp
qed (use assms in \<open>auto simp: on_join_room_def on_update_room_settings_def
      on_add_to_room_playlist_def on_remove_from_room_playlist_def sync_state chat_state
      on_sync_playback_def on_chat_message_def socket_join_def Let_def
      split: option.splits if_splits\<close>)

text \<open>Index of a character in \<open>chars\<close>, to spell a given code with random indices.\<close>

lemma draw_code_spell:
  "set c \<subseteq> set chars \<Longrightarrow>
     \<exists>ds. length ds = length c \<and> list_all (\<lambda>d. d < length chars) ds \<and>
          draw_code (length c) (ds @ rest) acc = Some (acc @ c, rest)"
proof (induction c arbitrary: acc)
  case Nil
  then show ?case by simp
next
  case (Cons x c)
  from Cons.prems obtain d where d: "d < length chars" "chars ! d = x"
    by (auto simp: in_set_conv_nth)
  from Cons.prems Cons.IH [of "acc @ [x]"] obtain ds where
    ds: "length ds = length c" "list_all (\<lambda>d. d < length chars) ds"
      "draw_code (length c) (ds @ rest) (acc @ [x]) = Some ((acc @ [x]) @ c, rest)"
    by auto
  with d have "length (d # ds) = length (x # c) \<and> list_all (\<lambda>d. d < length chars) (d # ds) \<and>
      draw_code (length (x # c)) ((d # ds) @ rest) acc = Some (acc @ x # c, rest)"
    by (simp add: charAt_def)
  then show ?case
    by blast
qed

lemma free_code_can_be_issued:
  assumes "valid_code c" and "c \<notin> roomCodes s"
  shows "\<exists>ds. list_all (\<lambda>d. d < length chars) ds \<and>
           generateRoomCode ds s = Some (c, [], s\<lparr>roomCodes := insert c (roomCodes s)\<rparr>)"
proof -
  from assms(1) have len: "length c = 6" and sub: "set c \<subseteq> set chars"
    by (simp_all add: valid_code_def)
  from draw_code_spell [OF sub, of "[]" "[]"] len obtain ds where
    "list_all (\<lambda>d. d < length chars) ds" "draw_code 6 ds [] = Some (c, [])"
    by auto
  with assms(2) show ?thesis
    by (subst generateRoomCode.simps) auto
qed

text \<open>
  The generator on a list of indices: the six indices that spell a code draw that code; a
  reserved code drawn is dropped and the run goes on with the indices that follow; a code
  drawn that is not reserved is returned.
\<close>

lemma index_of_nth: "x \<in> set ys \<Longrightarrow> index_of x ys < length ys \<and> ys ! index_of x ys = x"
  by (induction ys) auto

lemma draw_code_spell_of:
  "set c \<subseteq> set chars \<Longrightarrow> draw_code (length c) (spell c @ rest) acc = Some (acc @ c, rest)"
proof (induction c arbitrary: acc)
  case Nil
  then show ?case by (simp add: spell_def)
next
  case (Cons x c)
  from Cons.prems have "x \<in> set chars"
    by simp
  from index_of_nth [OF this] have "charAt chars (index_of x chars) = [x]"
    by (simp add: charAt_def)
  with Cons.IH [of "acc @ [x]"] Cons.prems show ?case
    by (simp add: spell_def)
qed

lemma draw_spell: "valid_code c \<Longrightarrow> draw_code 6 (spell c @ rest) [] = Some (c, rest)"
  using draw_code_spell_of [of c rest "[]"] by (simp add: valid_code_def)

lemma spell_random_ok: "valid_code c \<Longrightarrow> list_all (\<lambda>d. d < length chars) (spell c)"
  by (auto simp: valid_code_def spell_def list_all_iff dest: index_of_nth)

lemma generateRoomCode_collision:
  "draw_code 6 ds [] = Some (c, rest) \<Longrightarrow> c \<in> roomCodes s \<Longrightarrow>
     generateRoomCode ds s = generateRoomCode rest s"
  by (subst generateRoomCode.simps) simp

lemma generateRoomCode_free:
  "draw_code 6 ds [] = Some (c, rest) \<Longrightarrow> c \<notin> roomCodes s \<Longrightarrow>
     generateRoomCode ds s = Some (c, rest, s\<lparr>roomCodes := insert c (roomCodes s)\<rparr>)"
  by (subst generateRoomCode.simps) simp

lemma generateRoomCode_exhausted:
  "draw_code 6 ds [] = None \<Longrightarrow> generateRoomCode ds s = None"
  by (subst generateRoomCode.simps) simp

lemma generateRoomCode_retries:
  assumes "\<forall>x\<in>set cs. valid_code x \<and> x \<in> roomCodes s" and "valid_code c" and "c \<notin> roomCodes s"
  shows "generateRoomCode (concat (map spell cs) @ spell c @ rest) s
           = Some (c, rest, s\<lparr>roomCodes := insert c (roomCodes s)\<rparr>)"
  using assms(1)
proof (induction cs)
  case Nil
  from draw_spell [OF assms(2)] assms(3) show ?case
    by (simp add: generateRoomCode_free)
next
  case (Cons x cs)
  from Cons.prems have x: "valid_code x" "x \<in> roomCodes s"
    by simp_all
  from draw_spell [OF x(1), of "concat (map spell cs) @ spell c @ rest"] x(2)
  have "generateRoomCode (concat (map spell (x # cs)) @ spell c @ rest) s
      = generateRoomCode (concat (map spell cs) @ spell c @ rest) s"
    by (simp add: generateRoomCode_collision)
  with Cons show ?case
    by simp
qed

lemma draw_code_takes:
  "draw_code n ds acc = Some (c, rest) \<Longrightarrow>
     ds = take n ds @ rest \<and> length (take n ds) = n \<and>
     c = acc @ concat (map (charAt chars) (take n ds))"
proof (induction n ds acc rule: draw_code.induct)
  case (1 ds acc)
  then show ?case by simp
next
  case (2 n acc)
  then show ?case by simp
next
  case (3 n d ds acc)
  then show ?case by simp
qed

section \<open>Participants and the socket.io rooms\<close>

lemma join_effect:
  assumes "map_of (rooms s) rc = Some rm" and "on_join_room sock rc dn s = (s', out)"
  obtains rm' u where "rooms s' = AList.update rc rm' (rooms s)"
    and "fst ` set (participants rm') = insert (socket_id sock) (fst ` set (participants rm))"
    and "userSockets s' = AList.update (socket_id sock) u (userSockets s)"
    and "roomCode u = rc" and "\<not> isHost u" and "roomCodes s' = roomCodes s"
    and "io_rooms s' = (io_rooms s)(rc := insert (socket_id sock) (io_rooms s rc))"
  using assms
  by (auto simp: on_join_room_def socket_join_def Let_def dom_update)

lemma audience_okI:
  "(\<And>sid u. map_of (userSockets s) sid = Some u \<Longrightarrow> sid \<in> members s (roomCode u) \<Longrightarrow>
      sid \<in> io_rooms s (roomCode u)) \<Longrightarrow> audience_ok s"
  by (simp add: audience_ok_def)

lemma audience_okD:
  "audience_ok s \<Longrightarrow> map_of (userSockets s) sid = Some u \<Longrightarrow> sid \<in> members s (roomCode u) \<Longrightarrow>
     sid \<in> io_rooms s (roomCode u)"
  by (simp add: audience_ok_def)

text \<open>Handlers that touch neither sessions nor participants nor socket.io rooms.\<close>

lemma audience_ok_same:
  assumes "audience_ok s" and "userSockets s' = userSockets s" and "members s' = members s"
    and "io_rooms s' = io_rooms s"
  shows "audience_ok s'"
  using assms by (simp add: audience_ok_def)

lemma members_same_participants:
  assumes "map_of (rooms s) rc = Some rm" and "participants rm' = participants rm"
  shows "members (s\<lparr>rooms := AList.update rc rm' (rooms s)\<rparr>) = members s"
  using assms by (intro ext) (simp add: members_def map_simps)

lemma audience_ok_update:
  "audience_ok s \<Longrightarrow> audience_ok (fst (on_update_room_settings sock rc patch s))"
  by (erule audience_ok_same)
    (simp_all add: on_update_room_settings_def Let_def members_same_participants
      split: option.splits)

lemma audience_ok_add:
  "audience_ok s \<Longrightarrow> audience_ok (fst (on_add_to_room_playlist sock rc songs s))"
  by (erule audience_ok_same)
    (simp_all add: on_add_to_room_playlist_def Let_def members_same_participants
      split: option.splits)

lemma audience_ok_remove:
  "audience_ok s \<Longrightarrow> audience_ok (fst (on_remove_from_room_playlist sock rc ids s))"
  by (erule audience_ok_same)
    (simp_all add: on_remove_from_room_playlist_def Let_def members_same_participants
      split: option.splits)

lemma audience_ok_join:
  assumes "audience_ok s"
  shows "audience_ok (fst (on_join_room sock rc dn s))"
proof (cases "map_of (rooms s) rc")
  case None
  with assms show ?thesis
    by (simp add: on_join_room_def)
next
  case (Some rm)
  obtain s' out where res: "on_join_room sock rc dn s = (s', out)"
    by (cases "on_join_room sock rc dn s")
  with Some obtain rm' u where rooms': "rooms s' = AList.update rc rm' (rooms s)"
    and ps: "fst ` set (participants rm') = insert (socket_id sock) (fst ` set (participants rm))"
    and users': "userSockets s' = AList.update (socket_id sock) u (userSockets s)"
    and u: "roomCode u = rc"
    and io': "io_rooms s' = (io_rooms s)(rc := insert (socket_id sock) (io_rooms s rc))"
    by (rule join_effect)
  have "audience_ok s'"
  proof (rule audience_okI)
    fix sid v
    assume v: "map_of (userSockets s') sid = Some v" and m: "sid \<in> members s' (roomCode v)"
    show "sid \<in> io_rooms s' (roomCode v)"
    proof (cases "sid = socket_id sock")
      case True
      with v users' u io' show ?thesis
        by (simp add: map_simps)
    next
      case False
      with v users' have old: "map_of (userSockets s) sid = Some v"
        by (simp add: map_simps)
      from m False Some rooms' ps have "sid \<in> members s (roomCode v)"
        by (auto simp: members_def map_simps split: if_splits)
      from audience_okD [OF assms old this] io' show ?thesis
        by auto
    qed
  qed
  with res show ?thesis
    by simp
qed

lemma audience_ok_create:
  assumes "audience_ok s" and "on_create_room e sock nm descr ipl s = Some (s', out)"
  shows "audience_ok s'"
proof -
  from assms(2) obtain rc rm u where rooms': "rooms s' = AList.update rc rm (rooms s)"
    and users': "userSockets s' = AList.update (socket_id sock) u (userSockets s)"
    and io': "io_rooms s' = (io_rooms s)(rc := insert (socket_id sock) (io_rooms s rc))"
    and ps: "map fst (participants rm) = [socket_id sock]"
    and u: "roomCode u = rc"
    by (rule create_effect)
  from ps have keys: "fst ` set (participants rm) = {socket_id sock}"
    by (metis list.set(1) list.set(2) set_map)
  show ?thesis
  proof (rule audience_okI)
    fix sid v
    assume v: "map_of (userSockets s') sid = Some v" and m: "sid \<in> members s' (roomCode v)"
    show "sid \<in> io_rooms s' (roomCode v)"
    proof (cases "sid = socket_id sock")
      case True
      with v users' u io' show ?thesis
        by (simp add: map_simps)
    next
      case False
      with v users' have old: "map_of (userSockets s) sid = Some v"
        by (simp add: map_simps)
      from m False rooms' keys have "sid \<in> members s (roomCode v)"
        by (auto simp: members_def map_simps split: if_splits)
      from audience_okD [OF assms(1) old this] io' False show ?thesis
        by auto
    qed
  qed
qed

lemma audience_ok_disconnect:
  assumes "audience_ok s"
  shows "audience_ok (fst (on_disconnect sock s))"
proof -
  let ?s' = "fst (on_disconnect sock s)"
  have users': "map_of (userSockets ?s') sid = Some v \<Longrightarrow>
      sid \<noteq> socket_id sock \<and> map_of (userSockets s) sid = Some v" for sid v
    by (cases "map_of (userSockets s) (socket_id sock)";
        cases "map_of (rooms s) (roomCode (the (map_of (userSockets s) (socket_id sock))))";
        cases "isHost (the (map_of (userSockets s) (socket_id sock)))")
      (auto simp: disconnect_unbound disconnect_no_room disconnect_host disconnect_guest
        socket_leave_all_def map_simps split: if_splits)
  have members': "members ?s' c \<subseteq> members s c" for c
    using dom_delete_subset [of "socket_id sock"]
    by (cases "map_of (userSockets s) (socket_id sock)";
        cases "map_of (rooms s) (roomCode (the (map_of (userSockets s) (socket_id sock))))";
        cases "isHost (the (map_of (userSockets s) (socket_id sock)))")
      (auto simp: disconnect_unbound disconnect_no_room disconnect_host disconnect_guest
        socket_leave_all_def members_def map_simps split: option.splits if_splits)
  have io': "io_rooms ?s' c = io_rooms s c - {socket_id sock}" for c
    by (cases "map_of (userSockets s) (socket_id sock)";
        cases "map_of (rooms s) (roomCode (the (map_of (userSockets s) (socket_id sock))))";
        cases "isHost (the (map_of (userSockets s) (socket_id sock)))")
      (auto simp: disconnect_unbound disconnect_no_room disconnect_host disconnect_guest
        socket_leave_all_def)
  show ?thesis
  proof (rule audience_okI)
    fix sid v
    assume v: "map_of (userSockets ?s') sid = Some v" and m: "sid \<in> members ?s' (roomCode v)"
    from users' [OF v] have other: "sid \<noteq> socket_id sock"
      and old: "map_of (userSockets s) sid = Some v"
      by simp_all
    from m members' have "sid \<in> members s (roomCode v)"
      by blast
    from audience_okD [OF assms old this] other show "sid \<in> io_rooms ?s' (roomCode v)"
      by (simp add: io')
  qed
qed

lemma audience_ok_handle:
  assumes "audience_ok s" and h: "handle e sock ev s = Some (s', out)"
  shows "audience_ok s'"
proof (cases ev)
  case (JoinRoom rc dn)
  with h have "s' = fst (on_join_room sock rc dn s)"
    by auto
  with assms(1) show ?thesis
    by (simp add: audience_ok_join)
next
  case (CreateRoom nm descr ipl)
  with h have "on_create_room e sock nm descr ipl s = Some (s', out)"
    by simp
  with assms(1) show ?thesis
    by (rule audience_ok_create)
next
  case (UpdateRoomSettings rc patch)
  with h have "s' = fst (on_update_room_settings sock rc patch s)"
    by auto
  with assms(1) show ?thesis
    by (simp add: audience_ok_update)
next
  case (AddToRoomPlaylist rc songs)
  with h have "s' = fst (on_add_to_room_playlist sock rc songs s)"
    by auto
  with assms(1) show ?thesis
    by (simp add: audience_ok_add)
next
  case (RemoveFromRoomPlaylist rc ids)
  with h have "s' = fst (on_remove_from_room_playlist sock rc ids s)"
    by auto
  with assms(1) show ?thesis
    by (simp add: audience_ok_remove)
next
  case (SyncPlayback rc a sg ct pl)
  with h have "s' = fst (on_sync_playback sock rc a sg ct pl s)"
    by auto
  with assms(1) show ?thesis
    by (simp add: sync_state)
next
  case (ChatMessageEv rc msg)
  with h have "s' = fst (on_chat_message e sock rc msg s)"
    by auto
  with assms(1) show ?thesis
    by (simp add: chat_state)
next
  case Disconnect
  with h have "s' = fst (on_disconnect sock s)"
    by auto
  with assms(1) show ?thesis
    by (simp add: audience_ok_disconnect)
qed

lemma reachable_audience: "reachable s \<Longrightarrow> audience_ok s"
proof (induction rule: reachable.induct)
  case reachable_init
  show ?case
    by (simp add: audience_ok_def init_def)
next
  case (reachable_step s e sock ev s' out)
  from reachable_step.IH reachable_step.hyps(3) show ?case
    by (rule audience_ok_handle)
qed

text \<open>
  So, in a reachable state, what is emitted to the socket.io room of a code, the sender
  apart, reaches every other participant of the live room that is bound to it.
\<close>

lemma bound_participants_in_audience:
  assumes "reachable s" and "p \<noteq> sid" and "p \<in> members s rc" and "bound_room s p = Some rc"
  shows "p \<in> io_rooms s rc - {sid}"
proof -
  from assms(4) obtain u where u: "map_of (userSockets s) p = Some u" and "roomCode u = rc"
    by (auto simp: bound_room_def)
  with audience_okD [OF reachable_audience [OF assms(1)] u] assms(2,3) show ?thesis
    by simp
qed

section \<open>Connections that are still open\<close>

text \<open>
  A run in which no socket sends an event after its disconnect is a run of the server, and in
  it every participant of a live room that has not disconnected is in the socket.io room of
  the room's code.
\<close>

lemma reachable_closed_reachable: "reachable_closed gone s \<Longrightarrow> reachable s"
proof (induction rule: reachable_closed.induct)
  case reachable_closed_init
  show ?case by (rule reachable_init)
next
  case (reachable_closed_step gone s e sock ev s' out)
  from reachable_closed_step.IH reachable_closed_step.hyps(2,4) show ?case
    by (rule reachable_step)
qed

lemma run_reachable_closed:
  "reachable_closed gone s \<Longrightarrow> run tr s = Some s' \<Longrightarrow> closed_by tr gone = Some gone' \<Longrightarrow>
     reachable_closed gone' s'"
proof (induction tr arbitrary: s gone)
  case Nil
  then show ?case by simp
next
  case (Cons x tr)
  obtain e sock ev where x: "x = (e, sock, ev)"
    by (cases x) auto
  from Cons.prems(2) x have ok: "random_ok e"
    by (auto split: if_splits)
  from Cons.prems(2) x ok obtain s1 out where
    h: "handle e sock ev s = Some (s1, out)" and r: "run tr s1 = Some s'"
    by (auto split: option.splits)
  from Cons.prems(3) x have live: "socket_id sock \<notin> gone"
    and c: "closed_by tr (if ev = Disconnect then insert (socket_id sock) gone else gone) = Some gone'"
    by (auto split: if_splits)
  from Cons.prems(1) ok live h
  have "reachable_closed (if ev = Disconnect then insert (socket_id sock) gone else gone) s1"
    by (rule reachable_closed_step)
  from Cons.IH [OF this r c] show ?case .
qed

lemma run_the_reachable_closed:
  "run tr init \<noteq> None \<Longrightarrow> closed_by tr {} = Some gone \<Longrightarrow>
     reachable_closed gone (the (run tr init))"
  using run_reachable_closed [OF reachable_closed_init] by fastforce

lemma connected_okI:
  "(\<And>c p. p \<in> members s c \<Longrightarrow> p \<notin> gone \<Longrightarrow> p \<in> io_rooms s c) \<Longrightarrow> connected_ok gone s"
  by (simp add: connected_ok_def)

lemma connected_okD:
  "connected_ok gone s \<Longrightarrow> p \<in> members s c \<Longrightarrow> p \<notin> gone \<Longrightarrow> p \<in> io_rooms s c"
  by (simp add: connected_ok_def)

lemma connected_ok_same:
  assumes "connected_ok gone s" and "members s' = members s" and "io_rooms s' = io_rooms s"
  shows "connected_ok gone s'"
  using assms by (simp add: connected_ok_def)

lemma connected_ok_update:
  "connected_ok gone s \<Longrightarrow> connected_ok gone (fst (on_update_room_settings sock rc patch s))"
  by (erule connected_ok_same)
    (simp_all add: on_update_room_settings_def Let_def members_same_participants
      split: option.splits)

lemma connected_ok_add:
  "connected_ok gone s \<Longrightarrow> connected_ok gone (fst (on_add_to_room_playlist sock rc songs s))"
  by (erule connected_ok_same)
    (simp_all add: on_add_to_room_playlist_def Let_def members_same_participants
      split: option.splits)

lemma connected_ok_remove:
  "connected_ok gone s \<Longrightarrow> connected_ok gone (fst (on_remove_from_room_playlist sock rc ids s))"
  by (erule connected_ok_same)
    (simp_all add: on_remove_from_room_playlist_def Let_def members_same_participants
      split: option.splits)

lemma connected_ok_join:
  assumes "connected_ok gone s"
  shows "connected_ok gone (fst (on_join_room sock rc dn s))"
proof (cases "map_of (rooms s) rc")
  case None
  with assms show ?thesis
    by (simp add: on_join_room_def)
next
  case (Some rm)
  obtain s' out where res: "on_join_room sock rc dn s = (s', out)"
    by (cases "on_join_room sock rc dn s")
  with Some obtain rm' u where rooms': "rooms s' = AList.update rc rm' (rooms s)"
    and ps: "fst ` set (participants rm') = insert (socket_id sock) (fst ` set (participants rm))"
    and io': "io_rooms s' = (io_rooms s)(rc := insert (socket_id sock) (io_rooms s rc))"
    by (rule join_effect)
  have "connected_ok gone s'"
  proof (rule connected_okI)
    fix c p
    assume m: "p \<in> members s' c" and live: "p \<notin> gone"
    show "p \<in> io_rooms s' c"
    proof (cases "p = socket_id sock \<and> c = rc")
      case True
      with io' show ?thesis
        by simp
    next
      case False
      with m Some rooms' ps have "p \<in> members s c"
        by (auto simp: members_def map_simps split: if_splits)
      from connected_okD [OF assms this live] io' show ?thesis
        by auto
    qed
  qed
  with res show ?thesis
    by simp
qed

lemma connected_ok_create:
  assumes "connected_ok gone s" and "on_create_room e sock nm descr ipl s = Some (s', out)"
  shows "connected_ok gone s'"
proof -
  from assms(2) obtain rc rm where rooms': "rooms s' = AList.update rc rm (rooms s)"
    and io': "io_rooms s' = (io_rooms s)(rc := insert (socket_id sock) (io_rooms s rc))"
    and ps: "map fst (participants rm) = [socket_id sock]"
    by (rule create_effect)
  from ps have keys: "fst ` set (participants rm) = {socket_id sock}"
    by (metis list.set(1) list.set(2) set_map)
  show ?thesis
  proof (rule connected_okI)
    fix c p
    assume m: "p \<in> members s' c" and live: "p \<notin> gone"
    show "p \<in> io_rooms s' c"
    proof (cases "c = rc")
      case True
      with m rooms' keys io' show ?thesis
        by (simp add: members_def map_simps)
    next
      case False
      with m rooms' have "p \<in> members s c"
        by (simp add: members_def map_simps)
      from connected_okD [OF assms(1) this live] io' False show ?thesis
        by simp
    qed
  qed
qed

lemma disconnect_members_subset: "members (fst (on_disconnect sock s)) c \<subseteq> members s c"
  using dom_delete_subset [of "socket_id sock"]
  by (cases "map_of (userSockets s) (socket_id sock)";
      cases "map_of (rooms s) (roomCode (the (map_of (userSockets s) (socket_id sock))))";
      cases "isHost (the (map_of (userSockets s) (socket_id sock)))")
    (auto simp: disconnect_unbound disconnect_no_room disconnect_host disconnect_guest
      socket_leave_all_def members_def map_simps split: option.splits if_splits)

lemma disconnect_io_rooms:
  "io_rooms (fst (on_disconnect sock s)) c = io_rooms s c - {socket_id sock}"
  by (cases "map_of (userSockets s) (socket_id sock)";
      cases "map_of (rooms s) (roomCode (the (map_of (userSockets s) (socket_id sock))))";
      cases "isHost (the (map_of (userSockets s) (socket_id sock)))")
    (auto simp: disconnect_unbound disconnect_no_room disconnect_host disconnect_guest
      socket_leave_all_def)

lemma connected_ok_disconnect:
  assumes "connected_ok gone s"
  shows "connected_ok (insert (socket_id sock) gone) (fst (on_disconnect sock s))"
proof (rule connected_okI)
  fix c p
  assume m: "p \<in> members (fst (on_disconnect sock s)) c" and live: "p \<notin> insert (socket_id sock) gone"
  from m disconnect_members_subset have "p \<in> members s c"
    by blast
  from connected_okD [OF assms this] live show "p \<in> io_rooms (fst (on_disconnect sock s)) c"
    by (simp add: disconnect_io_rooms)
qed

lemma connected_ok_handle:
  assumes "connected_ok gone s" and h: "handle e sock ev s = Some (s', out)"
  shows "connected_ok (if ev = Disconnect then insert (socket_id sock) gone else gone) s'"
proof (cases ev)
  case (JoinRoom rc dn)
  with h have "s' = fst (on_join_room sock rc dn s)"
    by auto
  with assms(1) JoinRoom show ?thesis
    by (simp add: connected_ok_join)
next
  case (CreateRoom nm descr ipl)
  with h have "on_create_room e sock nm descr ipl s = Some (s', out)"
    by simp
  with assms(1) have "connected_ok gone s'"
    by (rule connected_ok_create)
  with CreateRoom show ?thesis
    by simp
next
  case (UpdateRoomSettings rc patch)
  with h have "s' = fst (on_update_room_settings sock rc patch s)"
    by auto
  with assms(1) UpdateRoomSettings show ?thesis
    by (simp add: connected_ok_update)
next
  case (AddToRoomPlaylist rc songs)
  with h have "s' = fst (on_add_to_room_playlist sock rc songs s)"
    by auto
  with assms(1) AddToRoomPlaylist show ?thesis
    by (simp add: connected_ok_add)
next
  case (RemoveFromRoomPlaylist rc ids)
  with h have "s' = fst (on_remove_from_room_playlist sock rc ids s)"
    by auto
  with assms(1) RemoveFromRoomPlaylist show ?thesis
    by (simp add: connected_ok_remove)
next
  case (SyncPlayback rc a sg ct pl)
  with h have "s' = fst (on_sync_playback sock rc a sg ct pl s)"
    by auto
  with assms(1) SyncPlayback show ?thesis
    by (simp add: sync_state)
next
  case (ChatMessageEv rc msg)
  with h have "s' = fst (on_chat_message e sock rc msg s)"
    by auto
  with assms(1) ChatMessageEv show ?thesis
    by (simp add: chat_state)
next
  case Disconnect
  with h have "s' = fst (on_disconnect sock s)"
    by auto
  with assms(1) Disconnect show ?thesis
    by (simp add: connected_ok_disconnect)
qed

lemma reachable_connected: "reachable_closed gone s \<Longrightarrow> connected_ok gone s"
proof (induction rule: reachable_closed.induct)
  case reachable_closed_init
  show ?case
    by (simp add: connected_ok_def members_def init_def)
next
  case (reachable_closed_step gone s e sock ev s' out)
  from reachable_closed_step.IH reachable_closed_step.hyps(4) show ?case
    by (rule connected_ok_handle)
qed

text \<open>
  So what is emitted to the socket.io room of a code, the sender apart, reaches every other
  participant of the live room that has not disconnected.
\<close>

lemma connected_participants_in_audience:
  assumes "reachable_closed gone s" and "p \<noteq> sid" and "p \<in> members s rc" and "p \<notin> gone"
  shows "p \<in> io_rooms s rc - {sid}"
  using connected_okD [OF reachable_connected [OF assms(1)] assms(3,4)] assms(2) by simp

text \<open>The disconnect of a connection removes a room only if its session names it as host.\<close>

lemma disconnect_removes_only_hosted:
  assumes "map_of (rooms s) c \<noteq> None" and "map_of (rooms (fst (on_disconnect sock s))) c = None"
  shows "\<exists>u. map_of (userSockets s) (socket_id sock) = Some u \<and> roomCode u = c \<and> isHost u"
proof (cases "map_of (userSockets s) (socket_id sock)")
  case None
  with assms show ?thesis
    by (simp add: disconnect_unbound socket_leave_all_def)
next
  case (Some u)
  show ?thesis
  proof (cases "map_of (rooms s) (roomCode u)")
    case None
    with Some assms show ?thesis
      by (simp add: disconnect_no_room socket_leave_all_def)
  next
    case (Some rm)
    with \<open>map_of (userSockets s) (socket_id sock) = Some u\<close> assms show ?thesis
      by (cases "isHost u")
        (auto simp: disconnect_host disconnect_guest socket_leave_all_def map_simps
          split: if_splits)
  qed
qed

lemma disconnect_releases_only_hosted:
  assumes "c \<in> roomCodes s" and "c \<notin> roomCodes (fst (on_disconnect sock s))"
  shows "\<exists>u. map_of (userSockets s) (socket_id sock) = Some u \<and> roomCode u = c \<and> isHost u \<and>
           map_of (rooms s) c \<noteq> None"
proof (cases "map_of (userSockets s) (socket_id sock)")
  case None
  with assms show ?thesis
    by (simp add: disconnect_unbound socket_leave_all_def)
next
  case (Some u)
  show ?thesis
  proof (cases "map_of (rooms s) (roomCode u)")
    case None
    with Some assms show ?thesis
      by (simp add: disconnect_no_room socket_leave_all_def)
  next
    case (Some rm)
    with \<open>map_of (userSockets s) (socket_id sock) = Some u\<close> assms show ?thesis
      by (cases "isHost u")
        (auto simp: disconnect_host disconnect_guest socket_leave_all_def map_simps
          split: if_splits)
  qed
qed

text \<open>
  After an accepted \<^verbatim>\<open>create-room\<close> or \<^verbatim>\<open>join-room\<close> of a connection, its disconnect leaves
  every room that was live before that event in the registry, with its code reserved.
\<close>

lemma rebound_disconnect_keeps:
  assumes codes: "codes_ok s" and h: "handle e sock ev s = Some (s1, out)"
    and ev: "(\<exists>nm descr ipl. ev = CreateRoom nm descr ipl) \<or>
             (\<exists>rc dn. ev = JoinRoom rc dn \<and> map_of (rooms s) rc \<noteq> None)"
    and live: "map_of (rooms s) c \<noteq> None"
  shows "map_of (rooms (fst (on_disconnect sock s1))) c \<noteq> None \<and>
         c \<in> roomCodes (fst (on_disconnect sock s1))"
proof -
  from codes live have reserved: "c \<in> roomCodes s"
    by (auto simp: codes_ok_def)
  from ev have "\<exists>u. map_of (userSockets s1) (socket_id sock) = Some u \<and>
      map_of (rooms s1) c \<noteq> None \<and> c \<in> roomCodes s1 \<and> (roomCode u = c \<longrightarrow> \<not> isHost u)"
  proof
    assume "\<exists>nm descr ipl. ev = CreateRoom nm descr ipl"
    then obtain nm descr ipl where "ev = CreateRoom nm descr ipl"
      by blast
    with h have "on_create_room e sock nm descr ipl s = Some (s1, out)"
      by simp
    then obtain rc rm u where "rc \<notin> roomCodes s"
      and "rooms s1 = AList.update rc rm (rooms s)"
      and "userSockets s1 = AList.update (socket_id sock) u (userSockets s)"
      and "roomCodes s1 = insert rc (roomCodes s)" and "roomCode u = rc"
      by (rule create_effect)
    with live reserved show ?thesis
      by (auto simp: map_simps)
  next
    assume "\<exists>rc dn. ev = JoinRoom rc dn \<and> map_of (rooms s) rc \<noteq> None"
    then obtain rc dn rm where j: "ev = JoinRoom rc dn" and rm: "map_of (rooms s) rc = Some rm"
      by auto
    from j h have "on_join_room sock rc dn s = (s1, out)"
      by auto
    with rm obtain rm' u where "rooms s1 = AList.update rc rm' (rooms s)"
      and "userSockets s1 = AList.update (socket_id sock) u (userSockets s)"
      and "\<not> isHost u" and "roomCodes s1 = roomCodes s"
      by (rule join_effect)
    with live reserved show ?thesis
      by (auto simp: map_simps)
  qed
  then obtain u where u: "map_of (userSockets s1) (socket_id sock) = Some u"
    and live1: "map_of (rooms s1) c \<noteq> None" and res1: "c \<in> roomCodes s1"
    and mark: "roomCode u = c \<longrightarrow> \<not> isHost u"
    by blast
  have kept: "map_of (rooms (fst (on_disconnect sock s1))) c \<noteq> None"
  proof
    assume "map_of (rooms (fst (on_disconnect sock s1))) c = None"
    from disconnect_removes_only_hosted [OF live1 this] u mark show False
      by auto
  qed
  have "c \<in> roomCodes (fst (on_disconnect sock s1))"
  proof (rule ccontr)
    assume "c \<notin> roomCodes (fst (on_disconnect sock s1))"
    from disconnect_releases_only_hosted [OF res1 this] u mark show False
      by auto
  qed
  with kept show ?thesis
    by simp
qed

lemma reachable_closed_st_songs: "reachable_closed {} st_songs"
  unfolding st_songs_def by (rule run_the_reachable_closed) (simp_all add: eval_defs)

lemma reachable_closed_st_sync: "reachable_closed {} st_sync"
  unfolding st_sync_def by (rule run_the_reachable_closed) (simp_all add: eval_defs)

lemma reachable_closed_st_bobhost: "reachable_closed {} st_bobhost"
  unfolding st_bobhost_def by (rule run_the_reachable_closed) (simp_all add: eval_defs)

lemma reachable_closed_st_aliceguest: "reachable_closed {} st_aliceguest"
  unfolding st_aliceguest_def by (rule run_the_reachable_closed) (simp_all add: eval_defs)

lemma reachable_st_bobhost: "reachable st_bobhost"
  using reachable_closed_st_bobhost by (rule reachable_closed_reachable)

lemma reachable_st_aliceguest: "reachable st_aliceguest"
  using reachable_closed_st_aliceguest by (rule reachable_closed_reachable)

section \<open>Playlist mutation\<close>

text \<open>An add whose tracks all have ids that are in the playlist already changes nothing.\<close>

lemma add_nothing_new:
  assumes "map_of (rooms s) rc = Some rm"
    and "set (track_ids songs) \<subseteq> set (track_ids (playlist rm))"
  shows "fst (on_add_to_room_playlist sock rc songs s) = s"
proof -
  have "filter (\<lambda>sng. \<not> list_ex (\<lambda>existing. get_prop existing ''_id'' = get_prop sng ''_id'')
          (playlist rm)) songs = []"
    using assms(2) by (fastforce simp: track_ids_def filter_empty_conv list_ex_iff)
  then show ?thesis
    using assms(1)
    by (auto simp: on_add_to_room_playlist_def Let_def update_triv split: option.splits)
qed

text \<open>After an add, the id of every track of the batch is in the playlist.\<close>

lemma add_covers_batch:
  assumes "map_of (rooms s) rc = Some rm"
    and "map_of (userSockets s) (socket_id sock) = Some u"
    and "s' = fst (on_add_to_room_playlist sock rc songs s)"
  shows "\<exists>rm'. map_of (rooms s') rc = Some rm' \<and>
           set (track_ids songs) \<subseteq> set (track_ids (playlist rm')) \<and>
           userSockets s' = userSockets s"
proof -
  let ?new = "filter (\<lambda>sng. \<not> list_ex (\<lambda>existing. get_prop existing ''_id'' = get_prop sng ''_id'')
          (playlist rm)) songs"
  have s': "s' = s\<lparr>rooms := AList.update rc (rm\<lparr>playlist := playlist rm @ ?new\<rparr>) (rooms s)\<rparr>"
    using assms by (simp add: on_add_to_room_playlist_def Let_def)
  have "get_prop sng ''_id'' \<in> set (track_ids (playlist rm @ ?new))" if "sng \<in> set songs" for sng
  proof (cases "list_ex (\<lambda>existing. get_prop existing ''_id'' = get_prop sng ''_id'') (playlist rm)")
    case True
    then obtain existing where "existing \<in> set (playlist rm)"
      and "get_prop existing ''_id'' = get_prop sng ''_id''"
      by (auto simp: list_ex_iff)
    then have "get_prop sng ''_id'' \<in> set (track_ids (playlist rm))"
      unfolding track_ids_def by (metis image_eqI set_map)
    then show ?thesis
      by (simp add: track_ids_def)
  next
    case False
    with that have "sng \<in> set ?new"
      by simp
    then show ?thesis
      by (simp add: track_ids_def)
  qed
  then have "set (track_ids songs) \<subseteq> set (track_ids (playlist rm @ ?new))"
    by (auto simp: track_ids_def)
  then show ?thesis
    by (simp add: s' update_conv')
qed

text \<open>
  C7. Playlist add is idempotent: handling \<^verbatim>\<open>add-to-room-playlist\<close> a second time with the
  same track list leaves the state that the first handling produced, so the playlist has the
  same contents and length as after one add; whatever part of the list went in the first
  time, the resubmission adds nothing. This holds in every state, also when the request is
  rejected (then neither handling changes anything). Ids are compared with \<^verbatim>\<open>===\<close>: the
  lists are the same when their ids are the same primitive values, as the string ids of the
  specification are.
\<close>

theorem C7_add_idempotent:
  "fst (on_add_to_room_playlist sock rc songs (fst (on_add_to_room_playlist sock rc songs s)))
     = fst (on_add_to_room_playlist sock rc songs s)"
proof (cases "map_of (rooms s) rc")
  case None
  then show ?thesis
    by (simp add: on_add_to_room_playlist_def)
next
  case (Some rm)
  show ?thesis
  proof (cases "map_of (userSockets s) (socket_id sock)")
    case None
    with Some show ?thesis
      by (simp add: on_add_to_room_playlist_def)
  next
    case (Some u)
    from add_covers_batch [OF \<open>map_of (rooms s) rc = Some rm\<close> Some refl, of songs]
    obtain rm' where "map_of (rooms (fst (on_add_to_room_playlist sock rc songs s))) rc = Some rm'"
      and "set (track_ids songs) \<subseteq> set (track_ids (playlist rm'))"
      by blast
    then show ?thesis
      by (rule add_nothing_new)
  qed
qed

text \<open>
  C8. Playlist remove, for a sender with a session and a live room: the new playlist is a
  subsequence of the old one (the order of what remains is unchanged, nothing is added);
  every track whose id is among the given ids is gone and every other track is there as
  often as before; if none of the ids occurs in the playlist the state is unchanged; and
  removing the same ids again changes nothing. No error is emitted for an id that is absent:
  the only emission is the updated playlist, to the room.
\<close>

theorem C8_remove_idempotent_order_preserving:
  assumes "map_of (rooms s) rc = Some rm"
    and "map_of (userSockets s) (socket_id sock) = Some u"
  shows "\<exists>rm'. map_of (rooms (fst (on_remove_from_room_playlist sock rc ids s))) rc = Some rm' \<and>
           subseq (playlist rm') (playlist rm) \<and>
           (\<forall>sng. count_list (playlist rm') sng =
              (if get_prop sng ''_id'' \<in> set ids then 0 else count_list (playlist rm) sng)) \<and>
           (set ids \<inter> set (track_ids (playlist rm)) = {} \<longrightarrow>
              fst (on_remove_from_room_playlist sock rc ids s) = s) \<and>
           fst (on_remove_from_room_playlist sock rc ids
                  (fst (on_remove_from_room_playlist sock rc ids s)))
             = fst (on_remove_from_room_playlist sock rc ids s) \<and>
           snd (on_remove_from_room_playlist sock rc ids s) =
             [(io_rooms s rc, RoomPlaylistUpdated (playlist rm') ''removedBy'' (displayName u))]"
proof -
  let ?pl = "filter (\<lambda>sng. get_prop sng ''_id'' \<notin> set ids) (playlist rm)"
  let ?s' = "fst (on_remove_from_room_playlist sock rc ids s)"
  have s': "?s' = s\<lparr>rooms := AList.update rc (rm\<lparr>playlist := ?pl\<rparr>) (rooms s)\<rparr>"
    using assms by (simp add: on_remove_from_room_playlist_def Let_def)
  have room': "map_of (rooms ?s') rc = Some (rm\<lparr>playlist := ?pl\<rparr>)"
    by (simp add: s' update_conv')
  have user': "map_of (userSockets ?s') (socket_id sock) = Some u"
    using assms(2) by (simp add: s')
  have order: "subseq ?pl (playlist rm)"
    by simp
  have counts: "count_list ?pl sng =
      (if get_prop sng ''_id'' \<in> set ids then 0 else count_list (playlist rm) sng)" for sng
    by (simp add: count_list_filter)
  have absent: "?s' = s" if "set ids \<inter> set (track_ids (playlist rm)) = {}"
  proof -
    from that have "?pl = playlist rm"
      by (auto simp: track_ids_def filter_id_conv)
    with assms(1) show ?thesis
      by (simp add: s' update_triv)
  qed
  have again: "fst (on_remove_from_room_playlist sock rc ids ?s') = ?s'"
  proof -
    have "filter (\<lambda>sng. get_prop sng ''_id'' \<notin> set ids) ?pl = ?pl"
      by simp
    then show ?thesis
      using room' user'
      by (simp add: on_remove_from_room_playlist_def Let_def update_triv)
  qed
  have out: "snd (on_remove_from_room_playlist sock rc ids s) =
      [(io_rooms s rc, RoomPlaylistUpdated ?pl ''removedBy'' (displayName u))]"
    using assms by (simp add: on_remove_from_room_playlist_def Let_def io_to_def)
  from room' order counts absent again out show ?thesis
    by auto
qed

text \<open>
  Bob, who joined Alice's room with playlist t1, t2, t3, removes the ids t2 and zz: the
  playlist becomes t1, t3.
\<close>

theorem C8_remove_witness:
  "map_option playlist (map_of (rooms st_songs) ''AAAAAA'') = Some [t1, t2, t3] \<and>
   bound_room st_songs (socket_id bob) = Some ''AAAAAA'' \<and>
   (\<exists>rm'. map_of (rooms (fst (on_remove_from_room_playlist bob ''AAAAAA''
              [JStr ''t2'', JStr ''zz''] st_songs))) ''AAAAAA'' = Some rm' \<and>
      subseq (playlist rm') [t1, t2, t3] \<and>
      count_list (playlist rm') t1 = 1 \<and> count_list (playlist rm') t2 = 0 \<and>
      count_list (playlist rm') t3 = 1)"
proof -
  have "\<exists>rm. map_of (rooms st_songs) ''AAAAAA'' = Some rm \<and> playlist rm = [t1, t2, t3]"
    by (simp add: eval_defs)
  then obtain rm where rm: "map_of (rooms st_songs) ''AAAAAA'' = Some rm"
    and pl: "playlist rm = [t1, t2, t3]"
    by blast
  have "\<exists>u. map_of (userSockets st_songs) (socket_id bob) = Some u \<and> roomCode u = ''AAAAAA''"
    by (simp add: eval_defs)
  then obtain u where u: "map_of (userSockets st_songs) (socket_id bob) = Some u"
    and bound: "roomCode u = ''AAAAAA''"
    by blast
  from C8_remove_idempotent_order_preserving [OF rm u, of "[JStr ''t2'', JStr ''zz'']"]
  obtain rm' where
    rm': "map_of (rooms (fst (on_remove_from_room_playlist bob ''AAAAAA''
              [JStr ''t2'', JStr ''zz''] st_songs))) ''AAAAAA'' = Some rm'"
    and sub: "subseq (playlist rm') (playlist rm)"
    and cnt: "\<And>sng. count_list (playlist rm') sng =
              (if get_prop sng ''_id'' \<in> set [JStr ''t2'', JStr ''zz''] then 0
               else count_list (playlist rm) sng)"
    by blast
  have "count_list (playlist rm') t1 = 1" "count_list (playlist rm') t2 = 0"
    "count_list (playlist rm') t3 = 1"
    by (simp_all add: cnt pl t1_def t2_def t3_def get_prop_def)
  with rm pl u bound rm' sub show ?thesis
    by (auto simp: bound_room_def)
qed

section \<open>Uniqueness of track ids\<close>

text \<open>
  What the filter of \<^verbatim>\<open>add-to-room-playlist\<close> achieves: if the ids in the playlist are unique
  and the ids within the batch are unique, the ids in the new playlist are unique.
\<close>

lemma add_keeps_unique_for_unique_batch:
  assumes "map_of (rooms s) rc = Some rm"
    and "map_of (userSockets s) (socket_id sock) = Some u"
    and "distinct (track_ids (playlist rm))" and "distinct (track_ids songs)"
  shows "\<exists>rm'. map_of (rooms (fst (on_add_to_room_playlist sock rc songs s))) rc = Some rm' \<and>
           distinct (track_ids (playlist rm'))"
proof -
  let ?new = "filter (\<lambda>sng. \<not> list_ex (\<lambda>existing. get_prop existing ''_id'' = get_prop sng ''_id'')
          (playlist rm)) songs"
  from assms(4) have "distinct (track_ids ?new)"
    unfolding track_ids_def by (rule distinct_map_filter)
  moreover have "set (track_ids (playlist rm)) \<inter> set (track_ids ?new) = {}"
    by (auto simp: track_ids_def list_ex_iff)
  ultimately have "distinct (track_ids (playlist rm @ ?new))"
    using assms(3) by (simp add: track_ids_def)
  with assms(1,2) show ?thesis
    by (simp add: on_add_to_room_playlist_def Let_def map_simps)
qed

text \<open>
  C3. The filter compares each track of the batch with the playlist as it was before the
  batch, not with the earlier tracks of the same batch. Alice adds the batch t1, t1 to the
  empty playlist of her room: both copies are appended, and the playlist holds the id t1
  twice.
\<close>

theorem C3_duplicate_within_batch:
  "reachable st_one \<and>
   bound_room st_one (socket_id alice) = Some ''AAAAAA'' \<and>
   map_option playlist (map_of (rooms st_one) ''AAAAAA'') = Some [] \<and>
   map_option playlist (map_of (rooms (fst (on_add_to_room_playlist alice ''AAAAAA'' [t1, t1] st_one)))
      ''AAAAAA'') = Some [t1, t1] \<and>
   track_ids [t1, t1] = [JStr ''t1'', JStr ''t1''] \<and>
   \<not> distinct (track_ids [t1, t1])"
  by (simp add: reachable_st_one track_ids_def) (simp add: eval_defs bound_room_def)

section \<open>Room codes\<close>

text \<open>
  C6. In every reachable state: each live room is registered under its own code, a string of
  six characters of A-Z0-9 that is in the reserved set, so two live rooms never share a code;
  the generator returns only a code that is not reserved and reserves it; an event takes a
  code out of the reserved set only if it is a disconnect that destroys the room registered
  under that code; and every well-formed code that is not reserved, a released one included,
  can be issued by the generator again. Generation retries on collision: a draw uses up six
  random indices and spells one code; when the code drawn is reserved, the result is that of
  generating from the indices that follow, with the reserved set unchanged; when it is not
  reserved, it is returned and reserved; so after any number of draws of reserved codes, the
  first code drawn that is not reserved is the one issued.
\<close>

theorem C6_room_codes:
  assumes "reachable s"
  shows "(\<forall>c rm. map_of (rooms s) c = Some rm \<longrightarrow> code rm = c \<and> valid_code c \<and> c \<in> roomCodes s) \<and>
    (\<forall>c1 c2 rm1 rm2. map_of (rooms s) c1 = Some rm1 \<and> map_of (rooms s) c2 = Some rm2 \<and> c1 \<noteq> c2
        \<longrightarrow> code rm1 \<noteq> code rm2) \<and>
    distinct (map fst (rooms s)) \<and>
    (\<forall>ds c rest s'. generateRoomCode ds s = Some (c, rest, s') \<longrightarrow>
        c \<notin> roomCodes s \<and> map_of (rooms s) c = None \<and> roomCodes s' = insert c (roomCodes s)) \<and>
    (\<forall>e sock ev s' out c. handle e sock ev s = Some (s', out) \<and> c \<in> roomCodes s \<and> c \<notin> roomCodes s'
        \<longrightarrow> ev = Disconnect \<and> map_of (rooms s) c \<noteq> None \<and> map_of (rooms s') c = None) \<and>
    (\<forall>c. valid_code c \<and> c \<notin> roomCodes s \<longrightarrow>
        (\<exists>ds. list_all (\<lambda>d. d < length chars) ds \<and>
           generateRoomCode ds s = Some (c, [], s\<lparr>roomCodes := insert c (roomCodes s)\<rparr>))) \<and>
    (\<forall>ds c rest. draw_code 6 ds [] = Some (c, rest) \<longrightarrow>
        ds = take 6 ds @ rest \<and> length (take 6 ds) = 6 \<and>
        c = concat (map (charAt chars) (take 6 ds))) \<and>
    (\<forall>c rest. valid_code c \<longrightarrow>
        list_all (\<lambda>d. d < length chars) (spell c) \<and> draw_code 6 (spell c @ rest) [] = Some (c, rest)) \<and>
    (\<forall>ds c rest. draw_code 6 ds [] = Some (c, rest) \<and> c \<in> roomCodes s \<longrightarrow>
        generateRoomCode ds s = generateRoomCode rest s) \<and>
    (\<forall>ds c rest. draw_code 6 ds [] = Some (c, rest) \<and> c \<notin> roomCodes s \<longrightarrow>
        generateRoomCode ds s = Some (c, rest, s\<lparr>roomCodes := insert c (roomCodes s)\<rparr>)) \<and>
    (\<forall>cs c rest. (\<forall>x\<in>set cs. valid_code x \<and> x \<in> roomCodes s) \<and> valid_code c \<and> c \<notin> roomCodes s \<longrightarrow>
        generateRoomCode (concat (map spell cs) @ spell c @ rest) s
          = Some (c, rest, s\<lparr>roomCodes := insert c (roomCodes s)\<rparr>))"
proof -
  from assms have codes: "codes_ok s" and keys: "keys_ok s"
    by (simp_all add: reachable_inv)
  have own: "code rm = c \<and> valid_code c \<and> c \<in> roomCodes s" if "map_of (rooms s) c = Some rm" for c rm
    using codes that unfolding codes_ok_def by blast
  have unshared: "code rm1 \<noteq> code rm2"
    if "map_of (rooms s) c1 = Some rm1 \<and> map_of (rooms s) c2 = Some rm2 \<and> c1 \<noteq> c2"
    for c1 c2 rm1 rm2
    using own [of c1 rm1] own [of c2 rm2] that by simp
  have gen: "c \<notin> roomCodes s \<and> map_of (rooms s) c = None \<and> roomCodes s' = insert c (roomCodes s)"
    if "generateRoomCode ds s = Some (c, rest, s')" for ds c rest s'
    using generateRoomCode_result [OF that] codes_ok_fresh [OF codes, of c] by simp
  have release: "ev = Disconnect \<and> map_of (rooms s) c \<noteq> None \<and> map_of (rooms s') c = None"
    if "handle e sock ev s = Some (s', out) \<and> c \<in> roomCodes s \<and> c \<notin> roomCodes s'"
    for e sock ev s' out c
    using that roomCodes_shrinks_only_on_close [of e sock ev s s' out c] by blast
  have reissue: "\<exists>ds. list_all (\<lambda>d. d < length chars) ds \<and>
      generateRoomCode ds s = Some (c, [], s\<lparr>roomCodes := insert c (roomCodes s)\<rparr>)"
    if "valid_code c \<and> c \<notin> roomCodes s" for c
    using that free_code_can_be_issued [of c s] by blast
  have six: "ds = take 6 ds @ rest \<and> length (take 6 ds) = 6 \<and>
      c = concat (map (charAt chars) (take 6 ds))"
    if "draw_code 6 ds [] = Some (c, rest)" for ds c rest
    using draw_code_takes [OF that] by simp
  have spelled: "list_all (\<lambda>d. d < length chars) (spell c) \<and>
      draw_code 6 (spell c @ rest) [] = Some (c, rest)"
    if "valid_code c" for c rest
    using that by (simp add: spell_random_ok draw_spell)
  have collision: "generateRoomCode ds s = generateRoomCode rest s"
    if "draw_code 6 ds [] = Some (c, rest) \<and> c \<in> roomCodes s" for ds c rest
    using that by (simp add: generateRoomCode_collision)
  have free: "generateRoomCode ds s = Some (c, rest, s\<lparr>roomCodes := insert c (roomCodes s)\<rparr>)"
    if "draw_code 6 ds [] = Some (c, rest) \<and> c \<notin> roomCodes s" for ds c rest
    using that by (simp add: generateRoomCode_free)
  have retries: "generateRoomCode (concat (map spell cs) @ spell c @ rest) s
      = Some (c, rest, s\<lparr>roomCodes := insert c (roomCodes s)\<rparr>)"
    if "(\<forall>x\<in>set cs. valid_code x \<and> x \<in> roomCodes s) \<and> valid_code c \<and> c \<notin> roomCodes s"
    for cs c rest
    using that by (simp add: generateRoomCode_retries)
  show ?thesis
    apply (intro conjI)
    subgoal using own by blast
    subgoal using unshared by blast
    subgoal using keys by (rule keys_ok_rooms)
    subgoal using gen by blast
    subgoal using release by blast
    subgoal using reissue by blast
    subgoal by (intro allI impI) (rule six)
    subgoal by (intro allI impI) (rule spelled)
    subgoal by (intro allI impI) (rule collision)
    subgoal by (intro allI impI) (rule free)
    subgoal by (intro allI impI) (rule retries)
    done
qed

text \<open>
  Alice creates a room and gets AAAAAA; after she disconnects the code is free, and a
  generator run can issue AAAAAA again. With Alice's and Bob's rooms live, AAAAAA is
  registered, well formed and reserved; there, a run that draws AAAAAA, then BBBBBB, then
  CCCCCC collides twice, draws a third time and issues CCCCCC.
\<close>

theorem C6_room_codes_witness:
  "reachable st_ab \<and> reachable st_closed \<and>
   map_option code (map_of (rooms st_ab) ''AAAAAA'') = Some ''AAAAAA'' \<and>
   valid_code ''AAAAAA'' \<and> ''AAAAAA'' \<in> roomCodes st_ab \<and>
   ''AAAAAA'' \<notin> roomCodes st_closed \<and>
   (\<exists>ds. generateRoomCode ds st_closed
      = Some (''AAAAAA'', [], st_closed\<lparr>roomCodes := insert ''AAAAAA'' (roomCodes st_closed)\<rparr>)) \<and>
   roomCodes st_ab = {''BBBBBB'', ''AAAAAA''} \<and>
   draw_code 6 [0, 0, 0, 0, 0, 0, 1, 1, 1, 1, 1, 1, 2, 2, 2, 2, 2, 2] []
     = Some (''AAAAAA'', [1, 1, 1, 1, 1, 1, 2, 2, 2, 2, 2, 2]) \<and>
   generateRoomCode [0, 0, 0, 0, 0, 0, 1, 1, 1, 1, 1, 1, 2, 2, 2, 2, 2, 2] st_ab
     = Some (''CCCCCC'', [], st_ab\<lparr>roomCodes := insert ''CCCCCC'' (roomCodes st_ab)\<rparr>)"
proof -
  have live: "\<exists>rm. map_of (rooms st_ab) ''AAAAAA'' = Some rm"
    by (simp add: eval_defs)
  then obtain rm where rm: "map_of (rooms st_ab) ''AAAAAA'' = Some rm"
    by blast
  note own = C6_room_codes [OF reachable_st_ab, THEN conjunct1, rule_format, OF rm]
  then have a: "code rm = ''AAAAAA'' \<and> valid_code ''AAAAAA'' \<and> ''AAAAAA'' \<in> roomCodes st_ab" .
  have free: "''AAAAAA'' \<notin> roomCodes st_closed"
    by (simp add: eval_defs)
  note reissue = C6_room_codes [OF reachable_st_closed, THEN conjunct2, THEN conjunct2,
      THEN conjunct2, THEN conjunct2, THEN conjunct2, THEN conjunct1, rule_format,
      of "''AAAAAA''"]
  with a free
  have "\<exists>ds. list_all (\<lambda>d. d < length chars) ds \<and> generateRoomCode ds st_closed
      = Some (''AAAAAA'', [], st_closed\<lparr>roomCodes := insert ''AAAAAA'' (roomCodes st_closed)\<rparr>)"
    by simp
  then obtain ds where ds: "generateRoomCode ds st_closed
      = Some (''AAAAAA'', [], st_closed\<lparr>roomCodes := insert ''AAAAAA'' (roomCodes st_closed)\<rparr>)"
    by blast
  have reserved: "roomCodes st_ab = {''BBBBBB'', ''AAAAAA''}"
    by (simp add: eval_defs)
  have valid: "valid_code ''AAAAAA''" "valid_code ''BBBBBB''" "valid_code ''CCCCCC''"
    by (simp_all add: valid_code_def chars_def)
  have spells: "spell ''AAAAAA'' = [0, 0, 0, 0, 0, 0]" "spell ''BBBBBB'' = [1, 1, 1, 1, 1, 1]"
    "spell ''CCCCCC'' = [2, 2, 2, 2, 2, 2]"
    by (simp_all add: spell_def chars_def)
  note retries = C6_room_codes [OF reachable_st_ab, THEN conjunct2, THEN conjunct2,
      THEN conjunct2, THEN conjunct2, THEN conjunct2, THEN conjunct2, THEN conjunct2,
      THEN conjunct2, THEN conjunct2, THEN conjunct2, rule_format,
      of "[''AAAAAA'', ''BBBBBB'']" "''CCCCCC''" "[]"]
  with valid reserved spells
  have third: "generateRoomCode [0, 0, 0, 0, 0, 0, 1, 1, 1, 1, 1, 1, 2, 2, 2, 2, 2, 2] st_ab
     = Some (''CCCCCC'', [], st_ab\<lparr>roomCodes := insert ''CCCCCC'' (roomCodes st_ab)\<rparr>)"
    by simp
  have first: "draw_code 6 [0, 0, 0, 0, 0, 0, 1, 1, 1, 1, 1, 1, 2, 2, 2, 2, 2, 2] []
     = Some (''AAAAAA'', [1, 1, 1, 1, 1, 1, 2, 2, 2, 2, 2, 2])"
    by (simp add: numeral_eq_Suc chars_def charAt_def)
  from a rm free reachable_st_ab reachable_st_closed reserved first third ds show ?thesis
    by (intro conjI exI [of _ ds]) simp_all
qed

section \<open>Departure\<close>

lemma distinct_keys_card: "distinct (map fst al) \<Longrightarrow> card (fst ` set al) = length al"
  using distinct_card [of "map fst al"] by simp

text \<open>
  C1, as the code has it. The handler goes by the session of the closing connection, not by
  the \<^verbatim>\<open>hostId\<close> of a room. In a reachable state, let the session of the connection be
  bound to a live room. If the session is marked host, then the connection is the
  \<^verbatim>\<open>hostId\<close> of that room, the room is absent from the registry afterwards, its code is no
  longer reserved and can be issued by the generator again, and \<^verbatim>\<open>room-closed\<close> goes to the
  sockets that are in the room's socket.io room, the closing one apart. If the session is not marked host, the room survives without
  that participant, no code is released, and \<^verbatim>\<open>participant-left\<close> with the new number of
  participants goes to the same audience. In both cases the session is discarded, and the
  audience includes every other participant of the room whose session is bound to it, and
  every other participant of the room that has not disconnected.

  A disconnect touches no other room: a room that was live is absent afterwards, or a code
  that was reserved is free afterwards, only if the session of the closing connection names
  that room and is marked host. And after an accepted \<^verbatim>\<open>create-room\<close>, or a \<^verbatim>\<open>join-room\<close>
  that names a live room, the disconnect of the same connection leaves every room that was
  live before that event in the registry, with its code reserved: the session then names the
  new room, or is not marked host. So a room whose host has since created another room, or
  joined a live room, on the same connection survives the host's disconnect.
\<close>

theorem C1_departure_by_session:
  assumes "reachable s"
  shows "(\<forall>u rm. map_of (userSockets s) (socket_id sock) = Some u \<and>
            map_of (rooms s) (roomCode u) = Some rm \<longrightarrow>
          (isHost u \<longrightarrow>
            hostId rm = socket_id sock \<and>
            map_of (rooms (fst (on_disconnect sock s))) (roomCode u) = None \<and>
            roomCode u \<notin> roomCodes (fst (on_disconnect sock s)) \<and>
            snd (on_disconnect sock s) =
              [(io_rooms s (roomCode u) - {socket_id sock}, RoomClosed ''Host has left the room'')] \<and>
            (\<exists>ds. list_all (\<lambda>d. d < length chars) ds \<and>
               generateRoomCode ds (fst (on_disconnect sock s)) =
                 Some (roomCode u, [], (fst (on_disconnect sock s))
                   \<lparr>roomCodes := insert (roomCode u) (roomCodes (fst (on_disconnect sock s)))\<rparr>))) \<and>
          (\<not> isHost u \<longrightarrow>
            (\<exists>rm'. map_of (rooms (fst (on_disconnect sock s))) (roomCode u) = Some rm' \<and>
               participants rm' = AList.delete (socket_id sock) (participants rm) \<and>
               socket_id sock \<notin> fst ` set (participants rm') \<and>
               participantCount rm' = card (fst ` set (participants rm')) \<and>
               snd (on_disconnect sock s) =
                 [(io_rooms s (roomCode u) - {socket_id sock},
                   ParticipantLeft (socket_id sock) (participantCount rm'))]) \<and>
            roomCodes (fst (on_disconnect sock s)) = roomCodes s) \<and>
          map_of (userSockets (fst (on_disconnect sock s))) (socket_id sock) = None \<and>
          (\<forall>p. p \<noteq> socket_id sock \<and> p \<in> members s (roomCode u) \<and>
               bound_room s p = Some (roomCode u) \<longrightarrow>
             p \<in> io_rooms s (roomCode u) - {socket_id sock}) \<and>
          (\<forall>gone p. reachable_closed gone s \<and> p \<noteq> socket_id sock \<and>
               p \<in> members s (roomCode u) \<and> p \<notin> gone \<longrightarrow>
             p \<in> io_rooms s (roomCode u) - {socket_id sock})) \<and>
         (\<forall>c. map_of (rooms s) c \<noteq> None \<and> map_of (rooms (fst (on_disconnect sock s))) c = None \<longrightarrow>
            (\<exists>u. map_of (userSockets s) (socket_id sock) = Some u \<and> roomCode u = c \<and> isHost u)) \<and>
         (\<forall>c. c \<in> roomCodes s \<and> c \<notin> roomCodes (fst (on_disconnect sock s)) \<longrightarrow>
            (\<exists>u. map_of (userSockets s) (socket_id sock) = Some u \<and> roomCode u = c \<and> isHost u \<and>
               map_of (rooms s) c \<noteq> None)) \<and>
         (\<forall>e ev s1 out c. handle e sock ev s = Some (s1, out) \<and>
            ((\<exists>nm descr ipl. ev = CreateRoom nm descr ipl) \<or>
             (\<exists>rc dn. ev = JoinRoom rc dn \<and> map_of (rooms s) rc \<noteq> None)) \<and>
            map_of (rooms s) c \<noteq> None \<longrightarrow>
            map_of (rooms (fst (on_disconnect sock s1))) c \<noteq> None \<and>
            c \<in> roomCodes (fst (on_disconnect sock s1)))"
proof -
  from assms have hosts: "hosts_ok s" and keys: "keys_ok s" and codes: "codes_ok s"
    by (simp_all add: reachable_inv)
  have bound: "(isHost u \<longrightarrow>
            hostId rm = socket_id sock \<and>
            map_of (rooms (fst (on_disconnect sock s))) (roomCode u) = None \<and>
            roomCode u \<notin> roomCodes (fst (on_disconnect sock s)) \<and>
            snd (on_disconnect sock s) =
              [(io_rooms s (roomCode u) - {socket_id sock}, RoomClosed ''Host has left the room'')] \<and>
            (\<exists>ds. list_all (\<lambda>d. d < length chars) ds \<and>
               generateRoomCode ds (fst (on_disconnect sock s)) =
                 Some (roomCode u, [], (fst (on_disconnect sock s))
                   \<lparr>roomCodes := insert (roomCode u) (roomCodes (fst (on_disconnect sock s)))\<rparr>))) \<and>
          (\<not> isHost u \<longrightarrow>
            (\<exists>rm'. map_of (rooms (fst (on_disconnect sock s))) (roomCode u) = Some rm' \<and>
               participants rm' = AList.delete (socket_id sock) (participants rm) \<and>
               socket_id sock \<notin> fst ` set (participants rm') \<and>
               participantCount rm' = card (fst ` set (participants rm')) \<and>
               snd (on_disconnect sock s) =
                 [(io_rooms s (roomCode u) - {socket_id sock},
                   ParticipantLeft (socket_id sock) (participantCount rm'))]) \<and>
            roomCodes (fst (on_disconnect sock s)) = roomCodes s) \<and>
          map_of (userSockets (fst (on_disconnect sock s))) (socket_id sock) = None \<and>
          (\<forall>p. p \<noteq> socket_id sock \<and> p \<in> members s (roomCode u) \<and>
               bound_room s p = Some (roomCode u) \<longrightarrow>
             p \<in> io_rooms s (roomCode u) - {socket_id sock}) \<and>
          (\<forall>gone p. reachable_closed gone s \<and> p \<noteq> socket_id sock \<and>
               p \<in> members s (roomCode u) \<and> p \<notin> gone \<longrightarrow>
             p \<in> io_rooms s (roomCode u) - {socket_id sock})"
    if session: "map_of (userSockets s) (socket_id sock) = Some u \<and>
        map_of (rooms s) (roomCode u) = Some rm" for u rm
  proof -
    from session have u: "map_of (userSockets s) (socket_id sock) = Some u"
      and rm: "map_of (rooms s) (roomCode u) = Some rm"
      by simp_all
    have unbound: "map_of (userSockets (fst (on_disconnect sock s))) (socket_id sock) = None"
      using u rm
      by (cases "isHost u") (simp_all add: disconnect_host disconnect_guest map_simps)
    have host: "hostId rm = socket_id sock \<and>
        map_of (rooms (fst (on_disconnect sock s))) (roomCode u) = None \<and>
        roomCode u \<notin> roomCodes (fst (on_disconnect sock s)) \<and>
        snd (on_disconnect sock s) =
          [(io_rooms s (roomCode u) - {socket_id sock}, RoomClosed ''Host has left the room'')] \<and>
        (\<exists>ds. list_all (\<lambda>d. d < length chars) ds \<and>
           generateRoomCode ds (fst (on_disconnect sock s)) =
             Some (roomCode u, [], (fst (on_disconnect sock s))
               \<lparr>roomCodes := insert (roomCode u) (roomCodes (fst (on_disconnect sock s)))\<rparr>))"
      if "isHost u"
    proof -
      have closed: "hostId rm = socket_id sock \<and>
          map_of (rooms (fst (on_disconnect sock s))) (roomCode u) = None \<and>
          roomCode u \<notin> roomCodes (fst (on_disconnect sock s)) \<and>
          snd (on_disconnect sock s) =
            [(io_rooms s (roomCode u) - {socket_id sock}, RoomClosed ''Host has left the room'')]"
        using hosts_ok_host [OF hosts u that rm] disconnect_host [OF u rm that]
        by (simp add: map_simps)
      from codes rm have "valid_code (roomCode u)"
        by (auto simp: codes_ok_def)
      from free_code_can_be_issued [OF this, of "fst (on_disconnect sock s)"] closed
      show ?thesis
        by simp
    qed
    have guest: "(\<exists>rm'. map_of (rooms (fst (on_disconnect sock s))) (roomCode u) = Some rm' \<and>
           participants rm' = AList.delete (socket_id sock) (participants rm) \<and>
           socket_id sock \<notin> fst ` set (participants rm') \<and>
           participantCount rm' = card (fst ` set (participants rm')) \<and>
           snd (on_disconnect sock s) =
             [(io_rooms s (roomCode u) - {socket_id sock},
               ParticipantLeft (socket_id sock) (participantCount rm'))]) \<and>
        roomCodes (fst (on_disconnect sock s)) = roomCodes s"
      if "\<not> isHost u"
    proof -
      let ?P = "AList.delete (socket_id sock) (participants rm)"
      from keys rm have "distinct (map fst (participants rm))"
        by (rule keys_ok_participants)
      then have "distinct (map fst ?P)"
        by (rule distinct_delete)
      then have "card (fst ` set ?P) = length ?P"
        by (rule distinct_keys_card)
      moreover have "socket_id sock \<notin> fst ` set ?P"
        by (rule delete_notin_dom)
      ultimately show ?thesis
        using disconnect_guest [OF u rm that]
        by (simp add: map_simps socket_leave_all_def)
    qed
    have audience: "p \<in> io_rooms s (roomCode u) - {socket_id sock}"
      if "p \<noteq> socket_id sock \<and> p \<in> members s (roomCode u) \<and> bound_room s p = Some (roomCode u)"
      for p
      using that bound_participants_in_audience [OF assms, of p "socket_id sock" "roomCode u"]
      by simp
    have connected: "p \<in> io_rooms s (roomCode u) - {socket_id sock}"
      if "reachable_closed gone s \<and> p \<noteq> socket_id sock \<and> p \<in> members s (roomCode u) \<and> p \<notin> gone"
      for gone p
      using that connected_participants_in_audience [of gone s p "socket_id sock" "roomCode u"]
      by simp
    show ?thesis
      apply (intro conjI)
      subgoal by (intro impI) (rule host)
      subgoal by (intro impI) (rule guest)
      subgoal by (rule unbound)
      subgoal by (intro allI impI) (rule audience)
      subgoal by (intro allI impI) (rule connected)
      done
  qed
  have removed: "\<exists>u. map_of (userSockets s) (socket_id sock) = Some u \<and> roomCode u = c \<and> isHost u"
    if "map_of (rooms s) c \<noteq> None \<and> map_of (rooms (fst (on_disconnect sock s))) c = None" for c
    using that disconnect_removes_only_hosted [of s c sock] by simp
  have released: "\<exists>u. map_of (userSockets s) (socket_id sock) = Some u \<and> roomCode u = c \<and>
      isHost u \<and> map_of (rooms s) c \<noteq> None"
    if "c \<in> roomCodes s \<and> c \<notin> roomCodes (fst (on_disconnect sock s))" for c
    using that disconnect_releases_only_hosted [of c s sock] by simp
  have rebound: "map_of (rooms (fst (on_disconnect sock s1))) c \<noteq> None \<and>
      c \<in> roomCodes (fst (on_disconnect sock s1))"
    if "handle e sock ev s = Some (s1, out) \<and>
        ((\<exists>nm descr ipl. ev = CreateRoom nm descr ipl) \<or>
         (\<exists>rc dn. ev = JoinRoom rc dn \<and> map_of (rooms s) rc \<noteq> None)) \<and>
        map_of (rooms s) c \<noteq> None" for e ev s1 out c
    using that rebound_disconnect_keeps [OF codes, of e sock ev s1 out c] by simp
  show ?thesis
    apply (intro conjI)
    subgoal by (intro allI impI) (rule bound)
    subgoal by (intro allI impI) (rule removed)
    subgoal by (intro allI impI) (rule released)
    subgoal by (intro allI impI) (rule rebound)
    done
qed

text \<open>
  Bob joined Alice's room AAAAAA. If Bob disconnects, Alice, who is connected, is told that
  one participant remains; if Alice disconnects, the room is gone and Bob, who is connected,
  is told so. If Alice first joins her own room again and then disconnects, the room is still
  there.
\<close>

theorem C1_departure_witness:
  "reachable st_songs \<and> reachable_closed {} st_songs \<and>
   bound_room st_songs (socket_id bob) = Some ''AAAAAA'' \<and>
   bound_room st_songs (socket_id alice) = Some ''AAAAAA'' \<and>
   map_of (rooms (fst (on_disconnect bob st_songs))) ''AAAAAA'' \<noteq> None \<and>
   snd (on_disconnect bob st_songs) = [({''alice''}, ParticipantLeft ''bob'' 1)] \<and>
   ''alice'' \<in> io_rooms st_songs ''AAAAAA'' - {socket_id bob} \<and>
   map_of (rooms (fst (on_disconnect alice st_songs))) ''AAAAAA'' = None \<and>
   ''AAAAAA'' \<notin> roomCodes (fst (on_disconnect alice st_songs)) \<and>
   snd (on_disconnect alice st_songs) = [({''bob''}, RoomClosed ''Host has left the room'')] \<and>
   map_of (rooms (fst (on_disconnect alice
      (fst (on_join_room alice ''AAAAAA'' JUndefined st_songs))))) ''AAAAAA'' \<noteq> None \<and>
   ''AAAAAA'' \<in> roomCodes (fst (on_disconnect alice
      (fst (on_join_room alice ''AAAAAA'' JUndefined st_songs))))"
proof -
  have "\<exists>rm. map_of (rooms st_songs) ''AAAAAA'' = Some rm \<and>
      map fst (participants rm) = [''alice'', ''bob'']"
    by (simp add: eval_defs)
  then obtain rm where rm: "map_of (rooms st_songs) ''AAAAAA'' = Some rm"
    and ps: "map fst (participants rm) = [''alice'', ''bob'']"
    by auto
  have "\<exists>u. map_of (userSockets st_songs) (socket_id bob) = Some u \<and> roomCode u = ''AAAAAA'' \<and>
      \<not> isHost u"
    by (simp add: eval_defs)
  then obtain ub where ub: "map_of (userSockets st_songs) (socket_id bob) = Some ub"
    and ub_room: "roomCode ub = ''AAAAAA''" and ub_guest: "\<not> isHost ub"
    by blast
  have "\<exists>u. map_of (userSockets st_songs) (socket_id alice) = Some u \<and> roomCode u = ''AAAAAA'' \<and>
      isHost u"
    by (simp add: eval_defs)
  then obtain ua where ua: "map_of (userSockets st_songs) (socket_id alice) = Some ua"
    and ua_room: "roomCode ua = ''AAAAAA''" and ua_host: "isHost ua"
    by blast
  have chan: "io_rooms st_songs ''AAAAAA'' = {''alice'', ''bob''}"
    by (simp add: eval_defs insert_commute)
  have ids: "socket_id alice = ''alice''" "socket_id bob = ''bob''"
    by (simp_all add: alice_def bob_def)
  from rm ub_room have rmb: "map_of (rooms st_songs) (roomCode ub) = Some rm"
    by simp
  from rm ua_room have rma: "map_of (rooms st_songs) (roomCode ua) = Some rm"
    by simp
  note c1b = C1_departure_by_session [OF reachable_st_songs, of bob, THEN conjunct1,
      rule_format, of ub rm]
  from c1b ub rmb ub_guest
  obtain rm' where
    b1: "map_of (rooms (fst (on_disconnect bob st_songs))) (roomCode ub) = Some rm'"
    and b2: "participants rm' = AList.delete (socket_id bob) (participants rm)"
    and b3: "participantCount rm' = card (fst ` set (participants rm'))"
    and b4: "snd (on_disconnect bob st_songs) =
       [(io_rooms st_songs (roomCode ub) - {socket_id bob},
         ParticipantLeft (socket_id bob) (participantCount rm'))]"
    by blast
  from b2 ps have "map fst (participants rm') = [''alice'']"
    by (simp add: delete_keys ids)
  then have "fst ` set (participants rm') = {''alice''}"
    by (metis list.set(1) list.set(2) set_map)
  with b3 have count: "participantCount rm' = 1"
    by simp
  from ps rm have member: "''alice'' \<in> members st_songs ''AAAAAA''"
    by (simp add: members_def) (metis list.set_intros(1) set_map)
  from c1b ub rmb have "\<forall>gone p. reachable_closed gone st_songs \<and> p \<noteq> socket_id bob \<and>
      p \<in> members st_songs (roomCode ub) \<and> p \<notin> gone \<longrightarrow>
      p \<in> io_rooms st_songs (roomCode ub) - {socket_id bob}"
    by blast
  from this [rule_format, of "{}" "''alice''"] reachable_closed_st_songs member ub_room ids
  have told: "''alice'' \<in> io_rooms st_songs ''AAAAAA'' - {socket_id bob}"
    by simp
  note c1a = C1_departure_by_session [OF reachable_st_songs, of alice, THEN conjunct1,
      rule_format, of ua rm]
  from c1a ua rma ua_host
  have a: "map_of (rooms (fst (on_disconnect alice st_songs))) (roomCode ua) = None \<and>
      roomCode ua \<notin> roomCodes (fst (on_disconnect alice st_songs)) \<and>
      snd (on_disconnect alice st_songs) =
        [(io_rooms st_songs (roomCode ua) - {socket_id alice}, RoomClosed ''Host has left the room'')]"
    by blast
  let ?s1 = "fst (on_join_room alice ''AAAAAA'' JUndefined st_songs)"
  have step: "handle no_draws alice (JoinRoom ''AAAAAA'' JUndefined) st_songs
      = Some (?s1, snd (on_join_room alice ''AAAAAA'' JUndefined st_songs))"
    by simp
  from C1_departure_by_session [OF reachable_st_songs, of alice, THEN conjunct2, THEN conjunct2,
      THEN conjunct2, rule_format, of no_draws "JoinRoom ''AAAAAA'' JUndefined" ?s1
      "snd (on_join_room alice ''AAAAAA'' JUndefined st_songs)" "''AAAAAA''"] step rm
  have again: "map_of (rooms (fst (on_disconnect alice ?s1))) ''AAAAAA'' \<noteq> None \<and>
      ''AAAAAA'' \<in> roomCodes (fst (on_disconnect alice ?s1))"
    by simp
  from reachable_st_songs reachable_closed_st_songs ub ub_room ua ua_room b1 b4 count a chan ids
    told again
  show ?thesis
    by (auto simp: bound_room_def)
qed

text \<open>
  The claim as stated fails. Alice creates the room AAAAAA and then, on the same connection,
  the room BBBBBB; the session is bound to BBBBBB. Alice is the host of AAAAAA, but when she
  disconnects, AAAAAA stays in the registry with its code reserved, and no event is emitted
  for it.
\<close>

theorem C1_counterexample:
  "reachable st_two \<and>
   map_option hostId (map_of (rooms st_two) ''AAAAAA'') = Some (socket_id alice) \<and>
   map_option hostId (map_of (rooms (fst (on_disconnect alice st_two))) ''AAAAAA'')
     = Some (socket_id alice) \<and>
   ''AAAAAA'' \<in> roomCodes (fst (on_disconnect alice st_two)) \<and>
   snd (on_disconnect alice st_two) = [(io_rooms st_two ''BBBBBB'' - {socket_id alice},
      RoomClosed ''Host has left the room'')]"
  by (simp add: reachable_st_two) (simp add: eval_defs)

section \<open>Authority\<close>

text \<open>
  C2, as the code has it. A \<^verbatim>\<open>sync-playback\<close> command from a connection with a session,
  addressed to a live room. The arbiter looks at the \<^verbatim>\<open>isHost\<close> mark of the sender's session,
  whatever room the command names, not at the \<^verbatim>\<open>hostId\<close> of the addressed room nor at its
  participants map. Under playbackMode sync and syncControl host-only a sender whose session
  is not marked host gets the error \<^verbatim>\<open>Only host can control synchronized playback\<close>, alone,
  and nothing is broadcast. Under playbackMode sync, when the session is marked host or
  syncControl is not host-only (anyone, for one), \<^verbatim>\<open>sync-playback-command\<close> goes to the sockets
  in the room's socket.io room except the sender. Under any other playbackMode (individual,
  for one) nothing is emitted. The state never changes.

  In a reachable state, a session marked host belongs to the \<^verbatim>\<open>hostId\<close> of the live room it
  is bound to; so a sender bound to the addressed room that is not the room's \<^verbatim>\<open>hostId\<close> is
  not marked host. The audience includes every other participant of the room whose session
  is bound to it, and every other participant of the room that has not disconnected.
\<close>

theorem C2_sync_playback_authority:
  assumes "map_of (rooms s) rc = Some rm"
    and "map_of (userSockets s) (socket_id sock) = Some u"
  shows "(get_prop (settings rm) ''playbackMode'' = JStr ''sync'' \<and>
          get_prop (settings rm) ''syncControl'' = JStr ''host-only'' \<and> \<not> isHost u \<longrightarrow>
            on_sync_playback sock rc a sg ct pl s =
              (s, [({socket_id sock}, Error ''Only host can control synchronized playback'')])) \<and>
         (get_prop (settings rm) ''playbackMode'' = JStr ''sync'' \<and>
          (get_prop (settings rm) ''syncControl'' = JStr ''host-only'' \<and> isHost u \<or>
           get_prop (settings rm) ''syncControl'' = JStr ''anyone'') \<longrightarrow>
            on_sync_playback sock rc a sg ct pl s =
              (s, [(io_rooms s rc - {socket_id sock},
                    SyncPlaybackCommand a sg ct pl (displayName u))])) \<and>
         (get_prop (settings rm) ''playbackMode'' = JStr ''individual'' \<longrightarrow>
            on_sync_playback sock rc a sg ct pl s = (s, [])) \<and>
         (reachable s \<and> roomCode u = rc \<and> hostId rm \<noteq> socket_id sock \<longrightarrow> \<not> isHost u) \<and>
         (\<forall>p. reachable s \<and> p \<noteq> socket_id sock \<and> p \<in> members s rc \<and>
              bound_room s p = Some rc \<longrightarrow>
            p \<in> io_rooms s rc - {socket_id sock}) \<and>
         (get_prop (settings rm) ''playbackMode'' = JStr ''sync'' \<and>
          (get_prop (settings rm) ''syncControl'' \<noteq> JStr ''host-only'' \<or> isHost u) \<longrightarrow>
            on_sync_playback sock rc a sg ct pl s =
              (s, [(io_rooms s rc - {socket_id sock},
                    SyncPlaybackCommand a sg ct pl (displayName u))])) \<and>
         (get_prop (settings rm) ''playbackMode'' \<noteq> JStr ''sync'' \<longrightarrow>
            on_sync_playback sock rc a sg ct pl s = (s, [])) \<and>
         (reachable s \<and> isHost u \<longrightarrow>
            (\<exists>rm'. map_of (rooms s) (roomCode u) = Some rm' \<and> hostId rm' = socket_id sock)) \<and>
         (\<forall>gone p. reachable_closed gone s \<and> p \<noteq> socket_id sock \<and> p \<in> members s rc \<and>
              p \<notin> gone \<longrightarrow>
            p \<in> io_rooms s rc - {socket_id sock})"
proof -
  have bound: "\<not> isHost u" if "reachable s \<and> roomCode u = rc \<and> hostId rm \<noteq> socket_id sock"
  proof
    assume "isHost u"
    from that have "hosts_ok s"
      by (simp add: reachable_inv)
    from hosts_ok_host [OF this assms(2) \<open>isHost u\<close>] assms(1) that show False
      by simp
  qed
  have audience: "p \<in> io_rooms s rc - {socket_id sock}"
    if "reachable s \<and> p \<noteq> socket_id sock \<and> p \<in> members s rc \<and> bound_room s p = Some rc"
    for p
    using that bound_participants_in_audience [of s p "socket_id sock" rc] by simp
  have mark: "\<exists>rm'. map_of (rooms s) (roomCode u) = Some rm' \<and> hostId rm' = socket_id sock"
    if "reachable s \<and> isHost u"
  proof -
    from that have hosts: "hosts_ok s" and host: "isHost u"
      by (simp_all add: reachable_inv)
    from hosts_ok_live [OF hosts assms(2) host] obtain rm'
      where rm': "map_of (rooms s) (roomCode u) = Some rm'"
      by blast
    from hosts_ok_host [OF hosts assms(2) host rm'] rm' show ?thesis
      by simp
  qed
  have connected: "p \<in> io_rooms s rc - {socket_id sock}"
    if "reachable_closed gone s \<and> p \<noteq> socket_id sock \<and> p \<in> members s rc \<and> p \<notin> gone"
    for gone p
    using that connected_participants_in_audience [of gone s p "socket_id sock" rc] by simp
  show ?thesis
    apply (intro conjI)
    subgoal using assms by (simp add: on_sync_playback_def socket_emit_def)
    subgoal using assms by (auto simp: on_sync_playback_def socket_to_def)
    subgoal using assms by (simp add: on_sync_playback_def)
    subgoal by (intro impI) (rule bound)
    subgoal by (intro allI impI) (rule audience)
    subgoal using assms by (auto simp: on_sync_playback_def socket_to_def)
    subgoal using assms by (simp add: on_sync_playback_def)
    subgoal by (intro impI) (rule mark)
    subgoal by (intro allI impI) (rule connected)
    done
qed

text \<open>
  In Alice's room in sync mode (host-only), Bob's command is refused and Alice's goes to Bob,
  who is connected; before the switch (individual mode) Alice's command is not passed on.
\<close>

theorem C2_sync_playback_witness:
  "bound_room st_sync (socket_id bob) = Some ''AAAAAA'' \<and>
   map_option hostId (map_of (rooms st_sync) ''AAAAAA'') = Some ''alice'' \<and>
   on_sync_playback bob ''AAAAAA'' (JStr ''play'') (JStr ''t1'') (JNum 0) (JBool True) st_sync =
     (st_sync, [({''bob''}, Error ''Only host can control synchronized playback'')]) \<and>
   on_sync_playback alice ''AAAAAA'' (JStr ''play'') (JStr ''t1'') (JNum 0) (JBool True) st_sync =
     (st_sync, [({''bob''},
        SyncPlaybackCommand (JStr ''play'') (JStr ''t1'') (JNum 0) (JBool True) (JStr ''Host''))]) \<and>
   on_sync_playback alice ''AAAAAA'' (JStr ''play'') (JStr ''t1'') (JNum 0) (JBool True) st_songs =
     (st_songs, []) \<and>
   reachable_closed {} st_sync \<and> ''bob'' \<in> members st_sync ''AAAAAA'' \<and>
   ''bob'' \<in> io_rooms st_sync ''AAAAAA'' - {socket_id alice}"
proof -
  have "\<exists>rm. map_of (rooms st_sync) ''AAAAAA'' = Some rm \<and>
      get_prop (settings rm) ''playbackMode'' = JStr ''sync'' \<and>
      get_prop (settings rm) ''syncControl'' = JStr ''host-only'' \<and> hostId rm = ''alice'' \<and>
      map fst (participants rm) = [''alice'', ''bob'']"
    by (simp add: eval_defs)
  then obtain rm where rm: "map_of (rooms st_sync) ''AAAAAA'' = Some rm"
    and mode: "get_prop (settings rm) ''playbackMode'' = JStr ''sync''"
    and ctrl: "get_prop (settings rm) ''syncControl'' = JStr ''host-only''"
    and host: "hostId rm = ''alice''"
    and ps: "map fst (participants rm) = [''alice'', ''bob'']"
    by auto
  have "\<exists>u. map_of (userSockets st_sync) (socket_id bob) = Some u \<and> roomCode u = ''AAAAAA'' \<and>
      \<not> isHost u"
    by (simp add: eval_defs)
  then obtain ub where ub: "map_of (userSockets st_sync) (socket_id bob) = Some ub"
    and ub_room: "roomCode ub = ''AAAAAA''" and ub_guest: "\<not> isHost ub"
    by auto
  have "\<exists>u. map_of (userSockets st_sync) (socket_id alice) = Some u \<and> isHost u \<and>
      displayName u = JStr ''Host''"
    by (simp add: eval_defs)
  then obtain ua where ua: "map_of (userSockets st_sync) (socket_id alice) = Some ua"
    and ua_host: "isHost ua" and ua_name: "displayName ua = JStr ''Host''"
    by auto
  have "\<exists>rm. map_of (rooms st_songs) ''AAAAAA'' = Some rm \<and>
      get_prop (settings rm) ''playbackMode'' = JStr ''individual''"
    by (simp add: eval_defs)
  then obtain rm0 where rm0: "map_of (rooms st_songs) ''AAAAAA'' = Some rm0"
    and mode0: "get_prop (settings rm0) ''playbackMode'' = JStr ''individual''"
    by auto
  have "\<exists>u. map_of (userSockets st_songs) (socket_id alice) = Some u"
    by (simp add: eval_defs)
  then obtain ua0 where ua0: "map_of (userSockets st_songs) (socket_id alice) = Some ua0"
    by auto
  have chan: "io_rooms st_sync ''AAAAAA'' = {''alice'', ''bob''}"
    by (simp add: eval_defs insert_commute)
  have ids: "socket_id alice = ''alice''" "socket_id bob = ''bob''"
    by (simp_all add: alice_def bob_def)
  from C2_sync_playback_authority [OF rm ub, of "JStr ''play''" "JStr ''t1''" "JNum 0" "JBool True",
      THEN conjunct1] mode ctrl ub_guest
  have b: "on_sync_playback bob ''AAAAAA'' (JStr ''play'') (JStr ''t1'') (JNum 0) (JBool True) st_sync =
     (st_sync, [({socket_id bob}, Error ''Only host can control synchronized playback'')])"
    by simp
  note c2a = C2_sync_playback_authority [OF rm ua, of "JStr ''play''" "JStr ''t1''" "JNum 0" "JBool True"]
  from c2a [THEN conjunct2, THEN conjunct1] mode ctrl ua_host
  have a: "on_sync_playback alice ''AAAAAA'' (JStr ''play'') (JStr ''t1'') (JNum 0) (JBool True) st_sync =
     (st_sync, [(io_rooms st_sync ''AAAAAA'' - {socket_id alice},
        SyncPlaybackCommand (JStr ''play'') (JStr ''t1'') (JNum 0) (JBool True) (displayName ua))])"
    by simp
  from C2_sync_playback_authority [OF rm0 ua0, of "JStr ''play''" "JStr ''t1''" "JNum 0" "JBool True",
      THEN conjunct2, THEN conjunct2, THEN conjunct1] mode0
  have i: "on_sync_playback alice ''AAAAAA'' (JStr ''play'') (JStr ''t1'') (JNum 0) (JBool True) st_songs =
     (st_songs, [])"
    by simp
  from arg_cong [OF ps, of set] have "fst ` set (participants rm) = {''alice'', ''bob''}"
    by simp
  with rm have member: "''bob'' \<in> members st_sync ''AAAAAA''"
    by (simp add: members_def)
  from c2a [THEN conjunct2, THEN conjunct2, THEN conjunct2, THEN conjunct2, THEN conjunct2,
      THEN conjunct2, THEN conjunct2, THEN conjunct2, rule_format, of "{}" "''bob''"]
    reachable_closed_st_sync member ids
  have told: "''bob'' \<in> io_rooms st_sync ''AAAAAA'' - {socket_id alice}"
    by simp
  from rm host ub ub_room a b i chan ids ua_name reachable_closed_st_sync member told
  show ?thesis
    by (auto simp: bound_room_def)
qed

text \<open>
  The claim as stated fails. In Alice's room AAAAAA in sync mode (host-only), Bob, a guest,
  creates the room BBBBBB on the same connection: he is still a participant of AAAAAA, not
  its host, yet his command for AAAAAA is broadcast to Alice, because his session is now
  marked host. Then Alice joins BBBBBB: she is still the \<^verbatim>\<open>hostId\<close> of AAAAAA and a
  participant of it, yet her command for AAAAAA is refused, because her session is no longer
  marked host.
\<close>

theorem C2_counterexample:
  "reachable st_bobhost \<and> reachable st_aliceguest \<and>
   map_option settings (map_of (rooms st_bobhost) ''AAAAAA'')
     = Some [(''playbackMode'', JStr ''sync''), (''syncControl'', JStr ''host-only'')] \<and>
   map_option hostId (map_of (rooms st_bobhost) ''AAAAAA'') = Some ''alice'' \<and>
   map_option (map (\<lambda>(k, v). (k, isHost v)) \<circ> participants) (map_of (rooms st_bobhost) ''AAAAAA'')
     = Some [(''alice'', True), (''bob'', False)] \<and>
   on_sync_playback bob ''AAAAAA'' (JStr ''play'') (JStr ''t1'') (JNum 0) (JBool True) st_bobhost =
     (st_bobhost, [({''alice''},
        SyncPlaybackCommand (JStr ''play'') (JStr ''t1'') (JNum 0) (JBool True) (JStr ''Host''))]) \<and>
   map_option settings (map_of (rooms st_aliceguest) ''AAAAAA'')
     = Some [(''playbackMode'', JStr ''sync''), (''syncControl'', JStr ''host-only'')] \<and>
   map_option hostId (map_of (rooms st_aliceguest) ''AAAAAA'') = Some ''alice'' \<and>
   map_option (map (\<lambda>(k, v). (k, isHost v)) \<circ> participants) (map_of (rooms st_aliceguest) ''AAAAAA'')
     = Some [(''alice'', True), (''bob'', False)] \<and>
   on_sync_playback alice ''AAAAAA'' (JStr ''play'') (JStr ''t1'') (JNum 0) (JBool True)
       st_aliceguest =
     (st_aliceguest, [({''alice''}, Error ''Only host can control synchronized playback'')])"
  by (simp add: reachable_st_bobhost reachable_st_aliceguest) (simp add: eval_defs)

text \<open>
  C4, as the code has it. An \<^verbatim>\<open>update-room-settings\<close> request fails with the error
  \<^verbatim>\<open>Unauthorized to update room settings\<close>, sent to the requester alone, and leaves the
  whole state unchanged, unless the addressed room exists and the requester's session is
  marked host. The flag belongs to the session, not to the addressed room: it says that the
  requester is the host of the room its session is bound to. So, in a reachable state, a
  requester bound to the addressed room fails unless it is the \<^verbatim>\<open>hostId\<close> of that room.
\<close>

theorem C4_update_needs_host_session:
  "(\<not> (\<exists>rm u. map_of (rooms s) rc = Some rm \<and>
          map_of (userSockets s) (socket_id sock) = Some u \<and> isHost u) \<longrightarrow>
      on_update_room_settings sock rc patch s =
        (s, [({socket_id sock}, Error ''Unauthorized to update room settings'')])) \<and>
   (\<forall>rm u. reachable s \<and> map_of (rooms s) rc = Some rm \<and>
       map_of (userSockets s) (socket_id sock) = Some u \<and> roomCode u = rc \<and>
       hostId rm \<noteq> socket_id sock \<longrightarrow>
      on_update_room_settings sock rc patch s =
        (s, [({socket_id sock}, Error ''Unauthorized to update room settings'')]))"
proof -
  have refused: "on_update_room_settings sock rc patch s =
        (s, [({socket_id sock}, Error ''Unauthorized to update room settings'')])"
    if "\<not> (\<exists>rm u. map_of (rooms s) rc = Some rm \<and>
          map_of (userSockets s) (socket_id sock) = Some u \<and> isHost u)"
    using that
    by (auto simp: on_update_room_settings_def socket_emit_def split: option.splits)
  have "\<not> isHost u"
    if "reachable s \<and> map_of (rooms s) rc = Some rm \<and>
       map_of (userSockets s) (socket_id sock) = Some u \<and> roomCode u = rc \<and>
       hostId rm \<noteq> socket_id sock" for rm u
  proof
    assume "isHost u"
    from that have "hosts_ok s"
      by (simp add: reachable_inv)
    from hosts_ok_host [OF this _ \<open>isHost u\<close>, of "socket_id sock" rm] that show False
      by simp
  qed
  then have "on_update_room_settings sock rc patch s =
        (s, [({socket_id sock}, Error ''Unauthorized to update room settings'')])"
    if "reachable s \<and> map_of (rooms s) rc = Some rm \<and>
       map_of (userSockets s) (socket_id sock) = Some u \<and> roomCode u = rc \<and>
       hostId rm \<noteq> socket_id sock" for rm u
    using that by (intro refused) auto
  with refused show ?thesis
    by blast
qed

text \<open>Bob, a guest in Alice's room, asks for sync mode: refused, nothing changes.\<close>

theorem C4_update_witness:
  "reachable st_songs \<and> bound_room st_songs (socket_id bob) = Some ''AAAAAA'' \<and>
   map_option hostId (map_of (rooms st_songs) ''AAAAAA'') = Some ''alice'' \<and>
   on_update_room_settings bob ''AAAAAA'' [(''playbackMode'', JStr ''sync'')] st_songs =
     (st_songs, [({''bob''}, Error ''Unauthorized to update room settings'')])"
proof -
  have "\<exists>rm. map_of (rooms st_songs) ''AAAAAA'' = Some rm \<and> hostId rm = ''alice''"
    by (simp add: eval_defs)
  then obtain rm where rm: "map_of (rooms st_songs) ''AAAAAA'' = Some rm"
    and host: "hostId rm = ''alice''"
    by auto
  have "\<exists>u. map_of (userSockets st_songs) (socket_id bob) = Some u \<and> roomCode u = ''AAAAAA''"
    by (simp add: eval_defs)
  then obtain ub where ub: "map_of (userSockets st_songs) (socket_id bob) = Some ub"
    and ub_room: "roomCode ub = ''AAAAAA''"
    by auto
  have ids: "socket_id bob = ''bob''"
    by (simp add: bob_def)
  from C4_update_needs_host_session [of st_songs "''AAAAAA''" bob, THEN conjunct2, rule_format,
      of rm ub "[(''playbackMode'', JStr ''sync'')]"]
    reachable_st_songs rm ub ub_room host ids
  have "on_update_room_settings bob ''AAAAAA'' [(''playbackMode'', JStr ''sync'')] st_songs =
     (st_songs, [({socket_id bob}, Error ''Unauthorized to update room settings'')])"
    by simp
  with reachable_st_songs rm host ub ub_room ids show ?thesis
    by (simp add: bound_room_def)
qed

text \<open>
  The claim as stated fails. Alice is the host of AAAAAA and Bob of BBBBBB. Alice's request
  for BBBBBB is accepted (her session is marked host): the settings of Bob's room change
  and the update is broadcast in Bob's room, though Alice is not the \<^verbatim>\<open>hostId\<close> of BBBBBB.
\<close>

theorem C4_counterexample:
  "reachable st_ab \<and>
   map_option hostId (map_of (rooms st_ab) ''BBBBBB'') = Some ''bob'' \<and>
   socket_id alice = ''alice'' \<and>
   map_option settings (map_of (rooms st_ab) ''BBBBBB'') =
     Some [(''playbackMode'', JStr ''individual''), (''syncControl'', JStr ''host-only'')] \<and>
   map_option settings (map_of (rooms (fst (on_update_room_settings alice ''BBBBBB''
       [(''playbackMode'', JStr ''sync'')] st_ab))) ''BBBBBB'') =
     Some [(''playbackMode'', JStr ''sync''), (''syncControl'', JStr ''host-only'')] \<and>
   snd (on_update_room_settings alice ''BBBBBB'' [(''playbackMode'', JStr ''sync'')] st_ab) =
     [({''bob''}, RoomSettingsUpdated
        [(''playbackMode'', JStr ''sync''), (''syncControl'', JStr ''host-only'')])]"
  by (simp add: reachable_st_ab) (simp add: eval_defs)

section \<open>Creation defaults and settings\<close>

text \<open>Where the settings of a room after an event come from.\<close>

lemma settings_step:
  assumes h: "handle e sock ev s = Some (s', out)" and rm': "map_of (rooms s') c = Some rm'"
  shows "(\<exists>rm. map_of (rooms s) c = Some rm \<and> settings rm' = settings rm) \<or>
         settings rm' = [(''playbackMode'', JStr ''individual''), (''syncControl'', JStr ''host-only'')] \<or>
         (\<exists>patch rm u. ev = UpdateRoomSettings c patch \<and> map_of (rooms s) c = Some rm \<and>
            map_of (userSockets s) (socket_id sock) = Some u \<and> isHost u \<and>
            settings rm' = spread (settings rm) patch)"
proof (cases ev)
  case (JoinRoom rc dn)
  with h rm' show ?thesis
    by (auto simp: on_join_room_def socket_join_def Let_def map_simps
        split: option.splits if_splits)
next
  case (CreateRoom nm descr ipl)
  with h have "on_create_room e sock nm descr ipl s = Some (s', out)"
    by simp
  then obtain rc rm where "rooms s' = AList.update rc rm (rooms s)"
    and "settings rm = [(''playbackMode'', JStr ''individual''), (''syncControl'', JStr ''host-only'')]"
    by (rule create_effect)
  with rm' show ?thesis
    by (auto simp: map_simps split: if_splits)
next
  case (UpdateRoomSettings rc patch)
  with h rm' show ?thesis
    by (auto simp: on_update_room_settings_def Let_def map_simps
        split: option.splits if_splits)
next
  case (AddToRoomPlaylist rc songs)
  with h rm' show ?thesis
    by (auto simp: on_add_to_room_playlist_def Let_def map_simps
        split: option.splits if_splits)
next
  case (RemoveFromRoomPlaylist rc ids)
  with h rm' show ?thesis
    by (auto simp: on_remove_from_room_playlist_def Let_def map_simps
        split: option.splits if_splits)
next
  case (SyncPlayback rc a sg ct pl)
  with h have "s' = fst (on_sync_playback sock rc a sg ct pl s)"
    by auto
  with rm' show ?thesis
    by (simp add: sync_state)
next
  case (ChatMessageEv rc msg)
  with h have "s' = fst (on_chat_message e sock rc msg s)"
    by auto
  with rm' show ?thesis
    by (simp add: chat_state)
next
  case Disconnect
  with h have s': "s' = fst (on_disconnect sock s)"
    by auto
  show ?thesis
  proof (cases "map_of (userSockets s) (socket_id sock)")
    case None
    with s' rm' show ?thesis
      by (simp add: disconnect_unbound socket_leave_all_def)
  next
    case (Some u)
    show ?thesis
    proof (cases "map_of (rooms s) (roomCode u)")
      case None
      with Some s' rm' show ?thesis
        by (simp add: disconnect_no_room socket_leave_all_def)
    next
      case (Some rm)
      with \<open>map_of (userSockets s) (socket_id sock) = Some u\<close> s' rm' show ?thesis
        by (cases "isHost u")
          (auto simp: disconnect_host disconnect_guest socket_leave_all_def map_simps
            split: if_splits)
    qed
  qed
qed

text \<open>
  The settings of a room that is live before and after an event are the same, unless the event
  is an update of that room from a connection whose session is marked host; a room that is
  live only after the event was created by it.
\<close>

lemma settings_frame:
  assumes h: "handle e sock ev s = Some (s', out)" and codes: "codes_ok s"
    and rm: "map_of (rooms s) c = Some rm" and rm': "map_of (rooms s') c = Some rm'"
  shows "settings rm' = settings rm \<or>
         (\<exists>patch u. ev = UpdateRoomSettings c patch \<and>
            map_of (userSockets s) (socket_id sock) = Some u \<and> isHost u \<and>
            settings rm' = spread (settings rm) patch)"
proof (cases ev)
  case (JoinRoom rc dn)
  with h rm rm' show ?thesis
    by (auto simp: on_join_room_def socket_join_def Let_def map_simps
        split: option.splits if_splits)
next
  case (CreateRoom nm descr ipl)
  with h have "on_create_room e sock nm descr ipl s = Some (s', out)"
    by simp
  then obtain rc rm0 where rooms': "rooms s' = AList.update rc rm0 (rooms s)"
    and fresh: "rc \<notin> roomCodes s"
    by (rule create_effect)
  from codes_ok_fresh [OF codes fresh] rm have "c \<noteq> rc"
    by auto
  with rooms' rm rm' show ?thesis
    by (simp add: map_simps)
next
  case (UpdateRoomSettings rc patch)
  with h rm rm' show ?thesis
    by (auto simp: on_update_room_settings_def Let_def map_simps
        split: option.splits if_splits)
next
  case (AddToRoomPlaylist rc songs)
  with h rm rm' show ?thesis
    by (auto simp: on_add_to_room_playlist_def Let_def map_simps
        split: option.splits if_splits)
next
  case (RemoveFromRoomPlaylist rc ids)
  with h rm rm' show ?thesis
    by (auto simp: on_remove_from_room_playlist_def Let_def map_simps
        split: option.splits if_splits)
next
  case (SyncPlayback rc a sg ct pl)
  with h have "s' = fst (on_sync_playback sock rc a sg ct pl s)"
    by auto
  with rm rm' show ?thesis
    by (simp add: sync_state)
next
  case (ChatMessageEv rc msg)
  with h have "s' = fst (on_chat_message e sock rc msg s)"
    by auto
  with rm rm' show ?thesis
    by (simp add: chat_state)
next
  case Disconnect
  with h have s': "s' = fst (on_disconnect sock s)"
    by auto
  show ?thesis
  proof (cases "map_of (userSockets s) (socket_id sock)")
    case None
    with s' rm rm' show ?thesis
      by (simp add: disconnect_unbound socket_leave_all_def)
  next
    case (Some u)
    show ?thesis
    proof (cases "map_of (rooms s) (roomCode u)")
      case None
      with Some s' rm rm' show ?thesis
        by (simp add: disconnect_no_room socket_leave_all_def)
    next
      case (Some rm0)
      with \<open>map_of (userSockets s) (socket_id sock) = Some u\<close> s' rm rm' show ?thesis
        by (cases "isHost u")
          (auto simp: disconnect_host disconnect_guest socket_leave_all_def map_simps
            split: if_splits)
    qed
  qed
qed

lemma settings_new:
  assumes h: "handle e sock ev s = Some (s', out)"
    and rm: "map_of (rooms s) c = None" and rm': "map_of (rooms s') c = Some rm'"
  shows "(\<exists>nm descr ipl. ev = CreateRoom nm descr ipl) \<and> hostId rm' = socket_id sock \<and>
         settings rm' = [(''playbackMode'', JStr ''individual''), (''syncControl'', JStr ''host-only'')]"
proof (cases ev)
  case (JoinRoom rc dn)
  with h rm rm' show ?thesis
    by (auto simp: on_join_room_def socket_join_def Let_def map_simps
        split: option.splits if_splits)
next
  case (CreateRoom nm descr ipl)
  with h have "on_create_room e sock nm descr ipl s = Some (s', out)"
    by simp
  then obtain rc rm0 where "rooms s' = AList.update rc rm0 (rooms s)"
    and "settings rm0 = [(''playbackMode'', JStr ''individual''), (''syncControl'', JStr ''host-only'')]"
    and "hostId rm0 = socket_id sock"
    by (rule create_effect)
  with rm rm' CreateRoom show ?thesis
    by (auto simp: map_simps split: if_splits)
next
  case (UpdateRoomSettings rc patch)
  with h rm rm' show ?thesis
    by (auto simp: on_update_room_settings_def Let_def map_simps
        split: option.splits if_splits)
next
  case (AddToRoomPlaylist rc songs)
  with h rm rm' show ?thesis
    by (auto simp: on_add_to_room_playlist_def Let_def map_simps
        split: option.splits if_splits)
next
  case (RemoveFromRoomPlaylist rc ids)
  with h rm rm' show ?thesis
    by (auto simp: on_remove_from_room_playlist_def Let_def map_simps
        split: option.splits if_splits)
next
  case (SyncPlayback rc a sg ct pl)
  with h have "s' = fst (on_sync_playback sock rc a sg ct pl s)"
    by auto
  with rm rm' show ?thesis
    by (simp add: sync_state)
next
  case (ChatMessageEv rc msg)
  with h have "s' = fst (on_chat_message e sock rc msg s)"
    by auto
  with rm rm' show ?thesis
    by (simp add: chat_state)
next
  case Disconnect
  with h have s': "s' = fst (on_disconnect sock s)"
    by auto
  show ?thesis
  proof (cases "map_of (userSockets s) (socket_id sock)")
    case None
    with s' rm rm' show ?thesis
      by (simp add: disconnect_unbound socket_leave_all_def)
  next
    case (Some u)
    show ?thesis
    proof (cases "map_of (rooms s) (roomCode u)")
      case None
      with Some s' rm rm' show ?thesis
        by (simp add: disconnect_no_room socket_leave_all_def)
    next
      case (Some rm0)
      with \<open>map_of (userSockets s) (socket_id sock) = Some u\<close> s' rm rm' show ?thesis
        by (cases "isHost u")
          (auto simp: disconnect_host disconnect_guest socket_leave_all_def map_simps
            split: if_splits)
    qed
  qed
qed

lemma map_of_fold_update:
  "distinct (map fst ps) \<Longrightarrow>
     map_of (fold (\<lambda>(k, v). AList.update k v) ps al) = map_of al ++ map_of ps"
proof (induction ps arbitrary: al)
  case Nil
  then show ?case by simp
next
  case (Cons p ps)
  obtain k v where p: "p = (k, v)"
    by (cases p)
  from Cons.prems p have "map_of ps k = None" and "distinct (map fst ps)"
    by (auto simp: map_of_eq_None_iff)
  with Cons.IH [of "AList.update k v al"] p show ?case
    by (auto simp: fun_eq_iff map_add_def update_conv' split: option.splits)
qed

lemma map_of_spread: "map_of (spread a b) = map_of a ++ map_of b"
  by (simp add: spread_def map_of_fold_update map_of_clearjunk)

lemma get_prop_spread:
  "get_prop (spread a b) k = (if k \<in> fst ` set b then get_prop b k else get_prop a k)"
proof -
  have "k \<in> fst ` set b \<longleftrightarrow> map_of b k \<noteq> None"
    by (simp add: map_of_eq_None_iff)
  then show ?thesis
    by (cases "map_of b k") (simp_all add: get_prop_def map_of_spread map_add_def)
qed

lemma valid_settings_spread:
  "valid_settings a \<Longrightarrow> valid_patch p \<Longrightarrow> valid_settings (spread a p)"
  by (auto simp: valid_settings_def valid_patch_def get_prop_spread map_of_eq_None_iff)

text \<open>
  C10, as the code has it. A room is created with playbackMode individual and syncControl
  host-only, and only an accepted \<^verbatim>\<open>update-room-settings\<close> changes the settings of a room: in
  a reachable state, a room that is live before and after an event has the settings it had,
  unless the event is an update of that room sent from a connection whose session is marked
  host; and a room that is live only after the event was created by it, with the two
  defaults. An accepted
  update is a shallow merge that validates nothing: each property of the patch replaces the
  room's property of that name, whatever its value, and the other properties are kept. Hence
  an event keeps the settings of all rooms well typed provided they were and, if the event
  is an accepted update, its patch gives playbackMode and syncControl, where it sets them,
  one of their allowed values.
\<close>

theorem C10_settings_typing:
  assumes "handle e sock ev s = Some (s', out)"
  shows "((\<forall>c rm. map_of (rooms s) c = Some rm \<longrightarrow> valid_settings (settings rm)) \<and>
          (\<forall>rc patch rm u. ev = UpdateRoomSettings rc patch \<and> map_of (rooms s) rc = Some rm \<and>
             map_of (userSockets s) (socket_id sock) = Some u \<and> isHost u \<longrightarrow> valid_patch patch) \<longrightarrow>
          (\<forall>c rm. map_of (rooms s') c = Some rm \<longrightarrow> valid_settings (settings rm))) \<and>
         (\<forall>rc patch rm u. ev = UpdateRoomSettings rc patch \<and> map_of (rooms s) rc = Some rm \<and>
            map_of (userSockets s) (socket_id sock) = Some u \<and> isHost u \<longrightarrow>
            (\<exists>rm'. map_of (rooms s') rc = Some rm' \<and>
               settings rm' = spread (settings rm) patch \<and>
               (\<forall>k. get_prop (settings rm') k =
                  (if k \<in> fst ` set patch then get_prop patch k else get_prop (settings rm) k)))) \<and>
         (\<forall>nm descr ipl. ev = CreateRoom nm descr ipl \<longrightarrow>
            (\<exists>rc rm. map_of (rooms s') rc = Some rm \<and> rc \<notin> roomCodes s \<and>
               hostId rm = socket_id sock \<and>
               settings rm =
                 [(''playbackMode'', JStr ''individual''), (''syncControl'', JStr ''host-only'')] \<and>
               get_prop (settings rm) ''playbackMode'' = JStr ''individual'' \<and>
               get_prop (settings rm) ''syncControl'' = JStr ''host-only'')) \<and>
         (\<forall>c rm rm'. reachable s \<and> map_of (rooms s) c = Some rm \<and> map_of (rooms s') c = Some rm' \<and>
            \<not> (\<exists>patch u. ev = UpdateRoomSettings c patch \<and>
                  map_of (userSockets s) (socket_id sock) = Some u \<and> isHost u) \<longrightarrow>
            settings rm' = settings rm) \<and>
         (\<forall>c rm'. map_of (rooms s) c = None \<and> map_of (rooms s') c = Some rm' \<longrightarrow>
            (\<exists>nm descr ipl. ev = CreateRoom nm descr ipl) \<and> hostId rm' = socket_id sock \<and>
            settings rm' =
              [(''playbackMode'', JStr ''individual''), (''syncControl'', JStr ''host-only'')])"
proof -
  have defaults: "valid_settings
      [(''playbackMode'', JStr ''individual''), (''syncControl'', JStr ''host-only'')]"
    by (simp add: valid_settings_def get_prop_def)
  have kept: "valid_settings (settings rm')"
    if old: "\<forall>c rm. map_of (rooms s) c = Some rm \<longrightarrow> valid_settings (settings rm)"
      and patch: "\<forall>rc patch rm u. ev = UpdateRoomSettings rc patch \<and> map_of (rooms s) rc = Some rm \<and>
             map_of (userSockets s) (socket_id sock) = Some u \<and> isHost u \<longrightarrow> valid_patch patch"
      and rm': "map_of (rooms s') c = Some rm'" for c rm'
  proof -
    from settings_step [OF assms rm'] consider
      (same) rm where "map_of (rooms s) c = Some rm" "settings rm' = settings rm"
      | (new) "settings rm' =
          [(''playbackMode'', JStr ''individual''), (''syncControl'', JStr ''host-only'')]"
      | (upd) patch rm u where "ev = UpdateRoomSettings c patch" "map_of (rooms s) c = Some rm"
          "map_of (userSockets s) (socket_id sock) = Some u" "isHost u"
          "settings rm' = spread (settings rm) patch"
      by auto
    then show ?thesis
    proof cases
      case same
      with old show ?thesis
        by simp
    next
      case new
      with defaults show ?thesis
        by simp
    next
      case upd
      from patch upd(1-4) have "valid_patch patch"
        by blast
      moreover from old upd(2) have "valid_settings (settings rm)"
        by simp
      ultimately show ?thesis
        using upd(5) by (simp add: valid_settings_spread)
    qed
  qed
  have merged: "\<exists>rm'. map_of (rooms s') rc = Some rm' \<and>
      settings rm' = spread (settings rm) patch \<and>
      (\<forall>k. get_prop (settings rm') k =
         (if k \<in> fst ` set patch then get_prop patch k else get_prop (settings rm) k))"
    if "ev = UpdateRoomSettings rc patch \<and> map_of (rooms s) rc = Some rm \<and>
        map_of (userSockets s) (socket_id sock) = Some u \<and> isHost u" for rc patch rm u
  proof -
    from that assms
    have "s' = s\<lparr>rooms := AList.update rc (rm\<lparr>settings := spread (settings rm) patch\<rparr>) (rooms s)\<rparr>"
      by (auto simp: on_update_room_settings_def Let_def)
    then show ?thesis
      by (simp add: map_simps get_prop_spread)
  qed
  have created: "\<exists>rc rm. map_of (rooms s') rc = Some rm \<and> rc \<notin> roomCodes s \<and>
      hostId rm = socket_id sock \<and>
      settings rm = [(''playbackMode'', JStr ''individual''), (''syncControl'', JStr ''host-only'')] \<and>
      get_prop (settings rm) ''playbackMode'' = JStr ''individual'' \<and>
      get_prop (settings rm) ''syncControl'' = JStr ''host-only''"
    if "ev = CreateRoom nm descr ipl" for nm descr ipl
  proof -
    from that assms have "on_create_room e sock nm descr ipl s = Some (s', out)"
      by simp
    then obtain rc rm where "rooms s' = AList.update rc rm (rooms s)"
      and "settings rm = [(''playbackMode'', JStr ''individual''), (''syncControl'', JStr ''host-only'')]"
      and "hostId rm = socket_id sock" and "rc \<notin> roomCodes s"
      by (rule create_effect)
    then show ?thesis
      by (intro exI [of _ rc] exI [of _ rm]) (simp add: map_simps get_prop_def)
  qed
  have unchanged: "settings rm' = settings rm"
    if "reachable s \<and> map_of (rooms s) c = Some rm \<and> map_of (rooms s') c = Some rm' \<and>
        \<not> (\<exists>patch u. ev = UpdateRoomSettings c patch \<and>
              map_of (userSockets s) (socket_id sock) = Some u \<and> isHost u)" for c rm rm'
  proof -
    from that have "codes_ok s"
      by (simp add: reachable_inv)
    from settings_frame [OF assms this, of c rm rm'] that show ?thesis
      by blast
  qed
  have fresh: "(\<exists>nm descr ipl. ev = CreateRoom nm descr ipl) \<and> hostId rm' = socket_id sock \<and>
      settings rm' = [(''playbackMode'', JStr ''individual''), (''syncControl'', JStr ''host-only'')]"
    if "map_of (rooms s) c = None \<and> map_of (rooms s') c = Some rm'" for c rm'
    using settings_new [OF assms, of c rm'] that by simp
  show ?thesis
    apply (intro conjI)
    subgoal using kept by blast
    subgoal using merged by blast
    subgoal using created by blast
    subgoal by (intro allI impI) (rule unchanged)
    subgoal by (intro allI impI) (rule fresh)
    done
qed

text \<open>
  Alice switches her room to sync: the patch is well typed, and so are the settings after it,
  with playbackMode sync and syncControl still host-only. Bob, a guest of the room, sends
  the patch \<^verbatim>\<open>{playbackMode: 'banana'}\<close>: it is refused, and the settings of the room are
  what they were.
\<close>

theorem C10_settings_witness:
  "valid_patch [(''playbackMode'', JStr ''sync'')] \<and>
   (\<exists>rm'. map_of (rooms (fst (on_update_room_settings alice ''AAAAAA''
              [(''playbackMode'', JStr ''sync'')] st_songs))) ''AAAAAA'' = Some rm' \<and>
      valid_settings (settings rm') \<and>
      settings rm' = [(''playbackMode'', JStr ''sync''), (''syncControl'', JStr ''host-only'')] \<and>
      get_prop (settings rm') ''playbackMode'' = JStr ''sync'' \<and>
      get_prop (settings rm') ''syncControl'' = JStr ''host-only'') \<and>
   reachable st_songs \<and>
   map_option isHost (map_of (userSockets st_songs) (socket_id bob)) = Some False \<and>
   map_option settings (map_of (rooms (fst (on_update_room_settings bob ''AAAAAA''
        [(''playbackMode'', JStr ''banana'')] st_songs))) ''AAAAAA'')
     = Some [(''playbackMode'', JStr ''individual''), (''syncControl'', JStr ''host-only'')]"
proof -
  let ?patch = "[(''playbackMode'', JStr ''sync'')]"
  let ?s' = "fst (on_update_room_settings alice ''AAAAAA'' ?patch st_songs)"
  have step: "handle no_draws alice (UpdateRoomSettings ''AAAAAA'' ?patch) st_songs
      = Some (?s', snd (on_update_room_settings alice ''AAAAAA'' ?patch st_songs))"
    by simp
  note c10 = C10_settings_typing [OF step]
  have patch: "valid_patch ?patch"
    by (simp add: valid_patch_def get_prop_def)
  have "\<exists>rm. rooms st_songs = [(''AAAAAA'', rm)] \<and>
      settings rm = [(''playbackMode'', JStr ''individual''), (''syncControl'', JStr ''host-only'')]"
    by (simp add: eval_defs)
  then obtain rm where rooms: "rooms st_songs = [(''AAAAAA'', rm)]"
    and st: "settings rm = [(''playbackMode'', JStr ''individual''), (''syncControl'', JStr ''host-only'')]"
    by auto
  have old: "\<forall>c r. map_of (rooms st_songs) c = Some r \<longrightarrow> valid_settings (settings r)"
    by (auto simp: rooms st valid_settings_def get_prop_def split: if_splits)
  have "\<exists>u. map_of (userSockets st_songs) (socket_id alice) = Some u \<and> isHost u"
    by (simp add: eval_defs)
  then obtain u where u: "map_of (userSockets st_songs) (socket_id alice) = Some u" and host: "isHost u"
    by auto
  from rooms have rm: "map_of (rooms st_songs) ''AAAAAA'' = Some rm"
    by simp
  from c10 [THEN conjunct2, THEN conjunct1, rule_format, of "''AAAAAA''" ?patch rm u] rm u host
  obtain rm' where rm': "map_of (rooms ?s') ''AAAAAA'' = Some rm'"
    and spread: "settings rm' = spread (settings rm) ?patch"
    and merged: "\<And>k. get_prop (settings rm') k =
        (if k \<in> fst ` set ?patch then get_prop ?patch k else get_prop (settings rm) k)"
    by auto
  from c10 [THEN conjunct1] old patch have "\<forall>c r. map_of (rooms ?s') c = Some r \<longrightarrow> valid_settings (settings r)"
    by simp
  with rm' have "valid_settings (settings rm')"
    by blast
  moreover have "get_prop (settings rm') ''playbackMode'' = JStr ''sync''"
    "get_prop (settings rm') ''syncControl'' = JStr ''host-only''"
    using merged [of "''playbackMode''"] merged [of "''syncControl''"]
    by (simp_all add: st get_prop_def)
  moreover from spread
  have "settings rm' = [(''playbackMode'', JStr ''sync''), (''syncControl'', JStr ''host-only'')]"
    by (simp add: st spread_def AList.clearjunk.simps)
  ultimately have first: "\<exists>rm'. map_of (rooms ?s') ''AAAAAA'' = Some rm' \<and>
      valid_settings (settings rm') \<and>
      settings rm' = [(''playbackMode'', JStr ''sync''), (''syncControl'', JStr ''host-only'')] \<and>
      get_prop (settings rm') ''playbackMode'' = JStr ''sync'' \<and>
      get_prop (settings rm') ''syncControl'' = JStr ''host-only''"
    using rm' by blast
  let ?bad = "[(''playbackMode'', JStr ''banana'')]"
  let ?t' = "fst (on_update_room_settings bob ''AAAAAA'' ?bad st_songs)"
  have step2: "handle no_draws bob (UpdateRoomSettings ''AAAAAA'' ?bad) st_songs
      = Some (?t', snd (on_update_room_settings bob ''AAAAAA'' ?bad st_songs))"
    by simp
  have guest: "map_option isHost (map_of (userSockets st_songs) (socket_id bob)) = Some False"
    by (simp add: eval_defs)
  have "\<exists>rm2. map_of (rooms ?t') ''AAAAAA'' = Some rm2"
    by (simp add: eval_defs)
  then obtain rm2 where rm2: "map_of (rooms ?t') ''AAAAAA'' = Some rm2"
    by blast
  from guest have refused: "\<not> (\<exists>patch u. UpdateRoomSettings ''AAAAAA'' ?bad = UpdateRoomSettings ''AAAAAA'' patch \<and>
      map_of (userSockets st_songs) (socket_id bob) = Some u \<and> isHost u)"
    by auto
  from C10_settings_typing [OF step2, THEN conjunct2, THEN conjunct2, THEN conjunct2,
      THEN conjunct1, rule_format, of "''AAAAAA''" rm rm2] reachable_st_songs rm rm2 refused
  have "settings rm2 = settings rm"
    by blast
  with rm2 st have second: "map_option settings (map_of (rooms ?t') ''AAAAAA'')
     = Some [(''playbackMode'', JStr ''individual''), (''syncControl'', JStr ''host-only'')]"
    by simp
  from patch first reachable_st_songs guest second show ?thesis
    by (intro conjI)
qed

text \<open>
  The claim as stated fails. Alice, the host, sends the patch \<^verbatim>\<open>{playbackMode: 'banana'}\<close>:
  it is merged as it is, and the room's playbackMode is neither individual nor sync.
\<close>

theorem C10_counterexample:
  "reachable st_banana \<and>
   map_option settings (map_of (rooms st_banana) ''AAAAAA'') =
     Some [(''playbackMode'', JStr ''banana''), (''syncControl'', JStr ''host-only'')] \<and>
   \<not> valid_settings [(''playbackMode'', JStr ''banana''), (''syncControl'', JStr ''host-only'')]"
  by (simp add: reachable_st_banana valid_settings_def get_prop_def) (simp add: eval_defs)

text \<open>
  C9, as the code has it. The room that \<^verbatim>\<open>create-room\<close> registers has a name that is never
  the empty string: a name that is missing or empty (any falsy value) is replaced by
  \<^verbatim>\<open>Music Room\<close>, any other name is kept. Its description is the one supplied, and the
  empty string when the description is missing or empty: the default of the description is
  the empty string.
\<close>

theorem C9_creation_defaults:
  assumes "on_create_room e sock nm descr ipl s = Some (s', out)"
  shows "\<exists>rc rm. map_of (rooms s') rc = Some rm \<and> rc \<notin> roomCodes s \<and>
           bound_room s' (socket_id sock) = Some rc \<and> hostId rm = socket_id sock \<and>
           truthy (name rm) \<and> name rm \<noteq> JStr [] \<and>
           (truthy nm \<longrightarrow> name rm = nm) \<and>
           (\<not> truthy nm \<longrightarrow> name rm = JStr ''Music Room'') \<and>
           (truthy descr \<longrightarrow> description rm = descr) \<and>
           (\<not> truthy descr \<longrightarrow> description rm = JStr [])"
proof -
  from assms obtain rc rm u where "rc \<notin> roomCodes s"
    and "rooms s' = AList.update rc rm (rooms s)"
    and "userSockets s' = AList.update (socket_id sock) u (userSockets s)"
    and "hostId rm = socket_id sock"
    and "name rm = js_or nm (JStr ''Music Room'')"
    and "description rm = js_or descr (JStr [])"
    and "roomCode u = rc"
    by (rule create_effect)
  then show ?thesis
    by (intro exI [of _ rc] exI [of _ rm]) (auto simp: map_simps bound_room_def js_or_def)
qed

text \<open>Alice creates a room without a name and with an empty description.\<close>

theorem C9_creation_witness:
  "\<exists>rc rm. map_of (rooms st_one) rc = Some rm \<and> bound_room st_one (socket_id alice) = Some rc \<and>
     name rm = JStr ''Music Room'' \<and> description rm = JStr []"
proof -
  have "\<exists>out. on_create_room draws_A alice JUndefined JUndefined None init = Some (st_one, out)"
    by (simp add: eval_defs)
  then obtain out where "on_create_room draws_A alice JUndefined JUndefined None init = Some (st_one, out)"
    by blast
  from C9_creation_defaults [OF this] show ?thesis
    by auto
qed

text \<open>
  The claim as stated fails for the description: the room that Alice creates without a
  description has the empty string as its description.
\<close>

theorem C9_counterexample:
  "reachable st_one \<and>
   map_option description (map_of (rooms st_one) ''AAAAAA'') = Some (JStr [])"
  by (simp add: reachable_st_one) (simp add: eval_defs)

section \<open>Session bindings and memberships\<close>

text \<open>What an event does to the sessions.\<close>

lemma sessions_step:
  assumes h: "handle e sock ev s = Some (s', out)"
  shows "userSockets s' = userSockets s \<or>
         (ev = Disconnect \<and> userSockets s' = AList.delete (socket_id sock) (userSockets s)) \<or>
         (\<exists>u. ((\<exists>rc dn. ev = JoinRoom rc dn \<and> roomCode u = rc \<and> map_of (rooms s) rc \<noteq> None) \<or>
               (\<exists>nm descr ipl. ev = CreateRoom nm descr ipl)) \<and>
              userSockets s' = AList.update (socket_id sock) u (userSockets s))"
proof (cases ev)
  case (JoinRoom rc dn)
  show ?thesis
  proof (cases "map_of (rooms s) rc")
    case None
    with h JoinRoom show ?thesis
      by (auto simp: on_join_room_def)
  next
    case (Some rm)
    from h JoinRoom have "on_join_room sock rc dn s = (s', out)"
      by simp
    with Some obtain u where "userSockets s' = AList.update (socket_id sock) u (userSockets s)"
      and "roomCode u = rc"
      by (rule join_effect)
    with JoinRoom Some show ?thesis
      by auto
  qed
next
  case (CreateRoom nm descr ipl)
  with h have "on_create_room e sock nm descr ipl s = Some (s', out)"
    by simp
  then obtain u where "userSockets s' = AList.update (socket_id sock) u (userSockets s)"
    by (rule create_effect)
  with CreateRoom show ?thesis
    by blast
next
  case (UpdateRoomSettings rc patch)
  with h show ?thesis
    by (auto simp: on_update_room_settings_def Let_def split: option.splits if_splits)
next
  case (AddToRoomPlaylist rc songs)
  with h show ?thesis
    by (auto simp: on_add_to_room_playlist_def Let_def split: option.splits)
next
  case (RemoveFromRoomPlaylist rc ids)
  with h show ?thesis
    by (auto simp: on_remove_from_room_playlist_def Let_def split: option.splits)
next
  case (SyncPlayback rc a sg ct pl)
  with h have "s' = fst (on_sync_playback sock rc a sg ct pl s)"
    by auto
  then show ?thesis
    by (simp add: sync_state)
next
  case (ChatMessageEv rc msg)
  with h have "s' = fst (on_chat_message e sock rc msg s)"
    by auto
  then show ?thesis
    by (simp add: chat_state)
next
  case Disconnect
  with h have s': "s' = fst (on_disconnect sock s)"
    by auto
  show ?thesis
  proof (cases "map_of (userSockets s) (socket_id sock)")
    case None
    with s' show ?thesis
      by (simp add: disconnect_unbound socket_leave_all_def)
  next
    case (Some u)
    show ?thesis
    proof (cases "map_of (rooms s) (roomCode u)")
      case None
      with Some s' Disconnect show ?thesis
        by (simp add: disconnect_no_room socket_leave_all_def)
    next
      case (Some rm)
      with \<open>map_of (userSockets s) (socket_id sock) = Some u\<close> s' Disconnect show ?thesis
        by (cases "isHost u") (simp_all add: disconnect_host disconnect_guest socket_leave_all_def)
    qed
  qed
qed

text \<open>Only join-room and create-room add a connection to a participants map.\<close>

lemma members_step:
  assumes h: "handle e sock ev s = Some (s', out)"
  shows "(\<forall>c. members s' c \<subseteq> members s c) \<or>
         (\<exists>rc dn. ev = JoinRoom rc dn \<and> map_of (rooms s) rc \<noteq> None \<and>
            members s' rc = insert (socket_id sock) (members s rc) \<and>
            (\<forall>c. c \<noteq> rc \<longrightarrow> members s' c = members s c)) \<or>
         (\<exists>nm descr ipl rc. ev = CreateRoom nm descr ipl \<and> rc \<notin> roomCodes s \<and>
            bound_room s' (socket_id sock) = Some rc \<and>
            members s' rc = {socket_id sock} \<and>
            (\<forall>c. c \<noteq> rc \<longrightarrow> members s' c = members s c))"
proof (cases ev)
  case (JoinRoom rc dn)
  show ?thesis
  proof (cases "map_of (rooms s) rc")
    case None
    with h JoinRoom show ?thesis
      by (auto simp: on_join_room_def)
  next
    case (Some rm)
    from h JoinRoom have "on_join_room sock rc dn s = (s', out)"
      by simp
    with Some obtain rm' where "rooms s' = AList.update rc rm' (rooms s)"
      and "fst ` set (participants rm') = insert (socket_id sock) (fst ` set (participants rm))"
      by (rule join_effect)
    with Some
    have "members s' rc = insert (socket_id sock) (members s rc) \<and>
        (\<forall>c. c \<noteq> rc \<longrightarrow> members s' c = members s c)"
      by (simp add: members_def map_simps)
    with JoinRoom Some show ?thesis
      by auto
  qed
next
  case (CreateRoom nm descr ipl)
  with h have "on_create_room e sock nm descr ipl s = Some (s', out)"
    by simp
  then obtain rc rm u where "rc \<notin> roomCodes s"
    and "rooms s' = AList.update rc rm (rooms s)"
    and "userSockets s' = AList.update (socket_id sock) u (userSockets s)"
    and "map fst (participants rm) = [socket_id sock]"
    and "roomCode u = rc"
    by (rule create_effect)
  moreover from this have "fst ` set (participants rm) = {socket_id sock}"
    by (metis list.set(1) list.set(2) set_map)
  ultimately have "ev = CreateRoom nm descr ipl \<and> rc \<notin> roomCodes s \<and>
      bound_room s' (socket_id sock) = Some rc \<and>
      members s' rc = {socket_id sock} \<and> (\<forall>c. c \<noteq> rc \<longrightarrow> members s' c = members s c)"
    using CreateRoom by (simp add: members_def bound_room_def map_simps)
  then show ?thesis
    by (intro disjI2 exI [of _ nm] exI [of _ descr] exI [of _ ipl] exI [of _ rc])
next
  case (UpdateRoomSettings rc patch)
  with h have "s' = fst (on_update_room_settings sock rc patch s)"
    by auto
  then have "members s' = members s"
    by (intro ext)
      (simp add: on_update_room_settings_def Let_def members_def map_simps split: option.splits)
  then show ?thesis
    by simp
next
  case (AddToRoomPlaylist rc songs)
  with h have "s' = fst (on_add_to_room_playlist sock rc songs s)"
    by auto
  then have "members s' = members s"
    by (intro ext)
      (simp add: on_add_to_room_playlist_def Let_def members_def map_simps split: option.splits)
  then show ?thesis
    by simp
next
  case (RemoveFromRoomPlaylist rc ids)
  with h have "s' = fst (on_remove_from_room_playlist sock rc ids s)"
    by auto
  then have "members s' = members s"
    by (intro ext)
      (simp add: on_remove_from_room_playlist_def Let_def members_def map_simps split: option.splits)
  then show ?thesis
    by simp
next
  case (SyncPlayback rc a sg ct pl)
  with h have "s' = fst (on_sync_playback sock rc a sg ct pl s)"
    by auto
  then show ?thesis
    by (simp add: sync_state)
next
  case (ChatMessageEv rc msg)
  with h have "s' = fst (on_chat_message e sock rc msg s)"
    by auto
  then show ?thesis
    by (simp add: chat_state)
next
  case Disconnect
  with h have s': "s' = fst (on_disconnect sock s)"
    by auto
  have "\<forall>c. members s' c \<subseteq> members s c"
  proof (cases "map_of (userSockets s) (socket_id sock)")
    case None
    with s' show ?thesis
      by (simp add: disconnect_unbound socket_leave_all_def members_def)
  next
    case (Some u)
    show ?thesis
    proof (cases "map_of (rooms s) (roomCode u)")
      case None
      with Some s' show ?thesis
        by (simp add: disconnect_no_room socket_leave_all_def members_def)
    next
      case (Some rm)
      with \<open>map_of (userSockets s) (socket_id sock) = Some u\<close> s' show ?thesis
        using dom_delete_subset [of "socket_id sock" "participants rm"]
        by (cases "isHost u")
          (auto simp: disconnect_host disconnect_guest socket_leave_all_def members_def map_simps
            split: option.splits)
    qed
  qed
  then show ?thesis
    by blast
qed

text \<open>
  C5, as the code has it. For every event: a session binding disappears only through the
  \<^verbatim>\<open>disconnect\<close> of its own connection; an event changes no binding but the sender's; a
  \<^verbatim>\<open>join-room\<close> for a live room binds the sender to that room whatever its binding was, and
  a \<^verbatim>\<open>create-room\<close> binds it to the new room, and both leave the participants maps of all
  other rooms as they are, so that a connection that was in another room stays in it; and a
  connection that is in no participants map is afterwards in none but that of the room it is
  bound to.
\<close>

theorem C5_binding_and_membership:
  assumes "handle e sock ev s = Some (s', out)"
  shows "(\<forall>sid. map_of (userSockets s) sid \<noteq> None \<and> map_of (userSockets s') sid = None \<longrightarrow>
            ev = Disconnect \<and> sid = socket_id sock) \<and>
         (\<forall>sid. sid \<noteq> socket_id sock \<longrightarrow> map_of (userSockets s') sid = map_of (userSockets s) sid) \<and>
         (\<forall>rc dn. ev = JoinRoom rc dn \<and> map_of (rooms s) rc \<noteq> None \<longrightarrow>
            bound_room s' (socket_id sock) = Some rc \<and>
            members s' rc = insert (socket_id sock) (members s rc) \<and>
            (\<forall>c. c \<noteq> rc \<longrightarrow> members s' c = members s c)) \<and>
         (\<forall>nm descr ipl. ev = CreateRoom nm descr ipl \<longrightarrow>
            (\<exists>rc. rc \<notin> roomCodes s \<and> bound_room s' (socket_id sock) = Some rc \<and>
               members s' rc = {socket_id sock} \<and>
               (\<forall>c. c \<noteq> rc \<longrightarrow> members s' c = members s c))) \<and>
         ((\<forall>c. socket_id sock \<notin> members s c) \<longrightarrow>
            (\<forall>c. socket_id sock \<in> members s' c \<longrightarrow> bound_room s' (socket_id sock) = Some c))"
proof -
  note ses = sessions_step [OF assms]
  note mem = members_step [OF assms]
  have unbind: "ev = Disconnect \<and> sid = socket_id sock"
    if "map_of (userSockets s) sid \<noteq> None \<and> map_of (userSockets s') sid = None" for sid
    using ses that by (auto simp: map_simps split: if_splits)
  have others: "map_of (userSockets s') sid = map_of (userSockets s) sid"
    if "sid \<noteq> socket_id sock" for sid
    using ses that by (auto simp: map_simps)
  have join: "bound_room s' (socket_id sock) = Some rc \<and>
      members s' rc = insert (socket_id sock) (members s rc) \<and>
      (\<forall>c. c \<noteq> rc \<longrightarrow> members s' c = members s c)"
    if "ev = JoinRoom rc dn \<and> map_of (rooms s) rc \<noteq> None" for rc dn
  proof -
    from that obtain rm where rm: "map_of (rooms s) rc = Some rm"
      by auto
    from that assms have "on_join_room sock rc dn s = (s', out)"
      by simp
    with rm obtain rm' u where "rooms s' = AList.update rc rm' (rooms s)"
      and "fst ` set (participants rm') = insert (socket_id sock) (fst ` set (participants rm))"
      and "userSockets s' = AList.update (socket_id sock) u (userSockets s)"
      and "roomCode u = rc"
      by (rule join_effect)
    with rm show ?thesis
      by (simp add: members_def bound_room_def map_simps)
  qed
  have create: "\<exists>rc. rc \<notin> roomCodes s \<and> bound_room s' (socket_id sock) = Some rc \<and>
      members s' rc = {socket_id sock} \<and> (\<forall>c. c \<noteq> rc \<longrightarrow> members s' c = members s c)"
    if "ev = CreateRoom nm descr ipl" for nm descr ipl
  proof -
    from that assms have "on_create_room e sock nm descr ipl s = Some (s', out)"
      by simp
    then obtain rc rm u where "rc \<notin> roomCodes s"
      and "rooms s' = AList.update rc rm (rooms s)"
      and "userSockets s' = AList.update (socket_id sock) u (userSockets s)"
      and "map fst (participants rm) = [socket_id sock]"
      and "roomCode u = rc"
      by (rule create_effect)
    moreover from this have "fst ` set (participants rm) = {socket_id sock}"
      by (metis list.set(1) list.set(2) set_map)
    ultimately have "rc \<notin> roomCodes s \<and> bound_room s' (socket_id sock) = Some rc \<and>
        members s' rc = {socket_id sock} \<and> (\<forall>c. c \<noteq> rc \<longrightarrow> members s' c = members s c)"
      by (simp add: members_def bound_room_def map_simps)
    then show ?thesis
      by (rule exI)
  qed
  have fresh: "bound_room s' (socket_id sock) = Some c"
    if none: "\<forall>c. socket_id sock \<notin> members s c" and c: "socket_id sock \<in> members s' c" for c
    using mem
  proof (elim disjE exE conjE)
    assume "\<forall>c. members s' c \<subseteq> members s c"
    with none c show ?thesis
      by blast
  next
    fix rc dn
    assume ev: "ev = JoinRoom rc dn" and live: "map_of (rooms s) rc \<noteq> None"
      and rest: "\<forall>c. c \<noteq> rc \<longrightarrow> members s' c = members s c"
    from rest none c have "c = rc"
      by auto
    with join [of rc dn] ev live show ?thesis
      by simp
  next
    fix nm descr ipl rc
    assume b: "bound_room s' (socket_id sock) = Some rc"
      and rest: "\<forall>c. c \<noteq> rc \<longrightarrow> members s' c = members s c"
    from rest none c have "c = rc"
      by auto
    with b show ?thesis
      by simp
  qed
  show ?thesis
    apply (intro conjI)
    subgoal by (intro allI impI) (rule unbind)
    subgoal by (intro allI impI) (rule others)
    subgoal by (intro allI impI) (rule join)
    subgoal by (intro allI impI) (rule create)
    subgoal by (intro allI impI) (rule fresh, assumption+)
    done
qed

text \<open>
  Carol, in no room so far, joins AAAAAA: she is bound to it and is in its participants map
  and in no other; Alice's binding is untouched.
\<close>

theorem C5_binding_witness:
  "map_of (rooms st_ab) ''AAAAAA'' \<noteq> None \<and>
   bound_room (fst (on_join_room carol ''AAAAAA'' (JStr ''Carol'') st_ab)) (socket_id carol)
     = Some ''AAAAAA'' \<and>
   members (fst (on_join_room carol ''AAAAAA'' (JStr ''Carol'') st_ab)) ''AAAAAA''
     = {''carol'', ''alice''} \<and>
   members (fst (on_join_room carol ''AAAAAA'' (JStr ''Carol'') st_ab)) ''BBBBBB'' = {''bob''} \<and>
   map_of (userSockets (fst (on_join_room carol ''AAAAAA'' (JStr ''Carol'') st_ab))) ''alice''
     = map_of (userSockets st_ab) ''alice''"
proof -
  let ?s' = "fst (on_join_room carol ''AAAAAA'' (JStr ''Carol'') st_ab)"
  have step: "handle no_draws carol (JoinRoom ''AAAAAA'' (JStr ''Carol'')) st_ab
      = Some (?s', snd (on_join_room carol ''AAAAAA'' (JStr ''Carol'') st_ab))"
    by simp
  note c5 = C5_binding_and_membership [OF step]
  have live: "map_of (rooms st_ab) ''AAAAAA'' \<noteq> None"
    by (simp add: eval_defs)
  have before: "members st_ab ''AAAAAA'' = {''alice''}" "members st_ab ''BBBBBB'' = {''bob''}"
    by (simp_all add: eval_defs members_def)
  have ids: "socket_id carol = ''carol''"
    by (simp add: carol_def)
  from c5 [THEN conjunct2, THEN conjunct2, THEN conjunct1, rule_format,
      of "''AAAAAA''" "JStr ''Carol''"] live
  have "bound_room ?s' (socket_id carol) = Some ''AAAAAA'' \<and>
      members ?s' ''AAAAAA'' = insert (socket_id carol) (members st_ab ''AAAAAA'') \<and>
      (\<forall>c. c \<noteq> ''AAAAAA'' \<longrightarrow> members ?s' c = members st_ab c)"
    by simp
  then have "bound_room ?s' (socket_id carol) = Some ''AAAAAA''"
    and "members ?s' ''AAAAAA'' = {''carol'', ''alice''}"
    and "members ?s' ''BBBBBB'' = {''bob''}"
    by (simp_all add: before ids)
  moreover from c5 [THEN conjunct2, THEN conjunct1, rule_format, of "''alice''"]
  have "map_of (userSockets ?s') ''alice'' = map_of (userSockets st_ab) ''alice''"
    by (simp add: ids)
  ultimately show ?thesis
    using live by simp
qed

text \<open>
  The claim as stated fails. Carol joins AAAAAA and then, on the same connection, BBBBBB.
  The second join is accepted: her session is rebound from AAAAAA to BBBBBB without a
  disconnect, and she is in the participants maps of both live rooms.
\<close>

theorem C5_counterexample:
  "reachable st_carol2 \<and>
   bound_room st_carol (socket_id carol) = Some ''AAAAAA'' \<and>
   map_option fst (handle no_draws carol (JoinRoom ''BBBBBB'' (JStr ''Carol'')) st_carol)
     = Some st_carol2 \<and>
   bound_room st_carol2 (socket_id carol) = Some ''BBBBBB'' \<and>
   map_of (rooms st_carol2) ''AAAAAA'' \<noteq> None \<and>
   map_of (rooms st_carol2) ''BBBBBB'' \<noteq> None \<and>
   socket_id carol \<in> members st_carol2 ''AAAAAA'' \<and>
   socket_id carol \<in> members st_carol2 ''BBBBBB''"
  by (simp add: reachable_st_carol2) (simp add: eval_defs bound_room_def members_def)

end
